theory Spec2Isabelle
  imports Main "HOL-Library.Sublist"
begin

section \<open>Data model (types.ts)\<close>

text \<open>
  \<^verbatim>\<open>export type VideoType = 'video' | 'short' | 'live' | 'scheduled' | 'vod';\<close>
  The specification calls \<open>vod\<close> a recording.
\<close>

datatype VideoType = Video | Short | Live | Scheduled | Vod

text \<open>\<^verbatim>\<open>export type FeedType = 'videos' | 'lives' | 'shorts';\<close>\<close>

datatype FeedType = Videos | Lives | Shorts

text \<open>The optional parameter \<^verbatim>\<open>feedHint?: 'shorts' | 'lives'\<close>; \<open>None\<close> is \<open>undefined\<close>.\<close>

datatype FeedHint = HintShorts | HintLives

text \<open>
  A JavaScript \<open>Date\<close>: \<open>Some t\<close> holds the time value \<open>t\<close> in milliseconds since the
  epoch, \<open>None\<close> is an Invalid Date (time value NaN), on which \<open>toISOString\<close> throws.
\<close>

type_synonym date = "int option"

record VideoInfo =
  videoId :: string
  title :: string
  publishedAt :: date
  thumbnailUrl :: string
  type :: VideoType
  duration :: "int option"
  scheduledStartTime :: "date option"
  isLive :: bool
  isLiveContent :: bool
  isUpcoming :: bool

text \<open>
  \<open>YTPlayerResponse\<close>: every field is optional; an absent boolean is \<open>None\<close> and is
  falsy where the code tests it.
\<close>

record YTPlayerResponse =
  pr_isLive :: "bool option"
  pr_isLiveContent :: "bool option"
  pr_isUpcoming :: "bool option"
  pr_duration :: "int option"
  pr_scheduledStartTime :: "date option"

record RSSItem =
  rss_videoId :: string
  rss_title :: string
  rss_publishedAt :: date
  rss_thumbnailUrl :: string

record ChannelInfo =
  ci_channelId :: string
  ci_title :: string
  ci_description :: "string option"
  ci_thumbnailUrl :: "string option"


section \<open>The classifier (video-classifier.ts)\<close>

definition SHORTS_MAX_DURATION :: int where
  "SHORTS_MAX_DURATION = 90"

text \<open>JavaScript truthiness of an optional boolean.\<close>

definition truthy :: "bool option \<Rightarrow> bool" where
  "truthy b = (b = Some True)"

text \<open>
  \<open>classifyVideo(props, feedHint)\<close>. A \<open>Date\<close> object is truthy whenever it is present,
  valid or not, so the first test asks only whether \<open>scheduledStartTime\<close> is defined.
\<close>

definition classifyVideo :: "YTPlayerResponse \<Rightarrow> FeedHint option \<Rightarrow> VideoType" where
  "classifyVideo props feedHint =
     (if truthy (pr_isUpcoming props) \<and> pr_scheduledStartTime props \<noteq> None then Scheduled
      else if truthy (pr_isLive props) then Live
      else if truthy (pr_isLiveContent props) then Vod
      else if (case pr_duration props of None \<Rightarrow> False | Some d \<Rightarrow> d \<le> SHORTS_MAX_DURATION)
        then Short
      else if feedHint = Some HintShorts then Short
      else Video)"

text \<open>
  The six-rule table of the specification, written as the specification words it: an
  ordered list of (condition, type) pairs and a first-match-wins reading of it.
\<close>

definition classification_rules ::
  "YTPlayerResponse \<Rightarrow> FeedHint option \<Rightarrow> (bool \<times> VideoType) list" where
  "classification_rules props feedHint =
     [(pr_isUpcoming props = Some True \<and> pr_scheduledStartTime props \<noteq> None, Scheduled),
      (pr_isLive props = Some True, Live),
      (pr_isLiveContent props = Some True, Vod),
      ((case pr_duration props of None \<Rightarrow> False | Some d \<Rightarrow> d \<le> 90), Short),
      (feedHint = Some HintShorts, Short),
      (True, Video)]"

fun first_match :: "(bool \<times> 'a) list \<Rightarrow> 'a option" where
  "first_match [] = None"
| "first_match ((c, t) # rules) = (if c then Some t else first_match rules)"


section \<open>Deduplication (youtube-scraper.ts)\<close>

text \<open>
  The local \<open>seen\<close> is a JavaScript \<open>Map\<close> from identifier to record. A \<open>Map\<close> iterates
  in insertion order and \<open>set\<close> on a key that is present replaces the value where it
  stands; the association list keeps both.
\<close>

type_synonym seen_map = "(string \<times> VideoInfo) list"

fun map_set :: "seen_map \<Rightarrow> string \<Rightarrow> VideoInfo \<Rightarrow> seen_map" where
  "map_set [] k v = [(k, v)]"
| "map_set ((k', v') # m) k v = (if k' = k then (k, v) # m else (k', v') # map_set m k v)"

definition map_get :: "seen_map \<Rightarrow> string \<Rightarrow> VideoInfo option" where
  "map_get m k = map_of m k"

definition shouldReplace :: "VideoInfo \<Rightarrow> VideoInfo \<Rightarrow> bool" where
  "shouldReplace video existing =
     ((isLive video \<and> \<not> isLive existing) \<or>
      (isLiveContent video \<and> \<not> isLiveContent existing) \<or>
      (isUpcoming video \<and> \<not> isUpcoming existing) \<or>
      (type video = Vod \<and> type existing = Video) \<or>
      (type video = Live \<and> type existing = Video) \<or>
      (type video = Scheduled \<and> type existing = Video))"

fun dedup_loop :: "seen_map \<Rightarrow> VideoInfo list \<Rightarrow> seen_map" where
  "dedup_loop seen [] = seen"
| "dedup_loop seen (video # videos) =
     (case map_get seen (videoId video) of
        None \<Rightarrow> dedup_loop (map_set seen (videoId video) video) videos
      | Some existing \<Rightarrow>
          if shouldReplace video existing
          then dedup_loop (map_set seen (videoId video) video) videos
          else dedup_loop seen videos)"

definition deduplicateVideos :: "VideoInfo list \<Rightarrow> VideoInfo list" where
  "deduplicateVideos videos = map snd (dedup_loop [] videos)"

text \<open>
  The ordered preference of the specification, read as a priority order: the first of
  live-now, was-recording, is-upcoming on which the two records differ decides; when
  they agree on all three, type specificity decides, where recording, live and
  scheduled outrank plain video.
\<close>

definition outranks :: "VideoType \<Rightarrow> VideoType \<Rightarrow> bool" where
  "outranks t t' = ((t = Vod \<or> t = Live \<or> t = Scheduled) \<and> t' = Video)"

definition strictly_dominates :: "VideoInfo \<Rightarrow> VideoInfo \<Rightarrow> bool" where
  "strictly_dominates newcomer kept =
     (if isLive newcomer \<noteq> isLive kept then isLive newcomer
      else if isLiveContent newcomer \<noteq> isLiveContent kept then isLiveContent newcomer
      else if isUpcoming newcomer \<noteq> isUpcoming kept then isUpcoming newcomer
      else outranks (type newcomer) (type kept))"

text \<open>Two sightings of one identifier: first as a running broadcast, then as a recording.\<close>

definition sighting_live :: VideoInfo where
  "sighting_live =
     \<lparr>videoId = ''dQw4w9WgXcQ'', title = ''Stream'', publishedAt = Some 1000,
      thumbnailUrl = ''t.jpg'', type = Live, duration = None, scheduledStartTime = None,
      isLive = True, isLiveContent = False, isUpcoming = False\<rparr>"

definition sighting_vod :: VideoInfo where
  "sighting_vod =
     \<lparr>videoId = ''dQw4w9WgXcQ'', title = ''Stream'', publishedAt = Some 1000,
      thumbnailUrl = ''t.jpg'', type = Vod, duration = None, scheduledStartTime = None,
      isLive = False, isLiveContent = True, isUpcoming = False\<rparr>"


section \<open>The fetch client (http-client.ts)\<close>

text \<open>
  Errors that travel as JavaScript exceptions. \<open>HttpError s\<close> is the error built from a
  response that is not ok, with its \<open>status\<close> property set to \<open>s\<close>; \<open>FetchRejected n\<close> is
  an error named \<open>n\<close> thrown by \<open>fetch\<close> or by \<open>response.text()\<close> (\<open>AbortError\<close> on timeout,
  \<open>TypeError\<close> on a connection failure), which has no \<open>status\<close>; \<open>RequestFailed\<close> is
  \<open>new Error('Request failed')\<close>; \<open>RangeError\<close> is what \<open>toISOString\<close> throws on an
  Invalid Date.
\<close>

datatype js_error = HttpError nat | FetchRejected string | RequestFailed | RangeError

fun error_status :: "js_error \<Rightarrow> nat option" where
  "error_status (HttpError s) = Some s"
| "error_status _ = None"

text \<open>
  What one call of \<open>fetch\<close> gives: a rejection (of \<open>fetch\<close> itself, or of reading the
  body of an ok response), or a response with its status, the integer that \<open>parseInt\<close>
  reads from its \<open>Retry-After\<close> header (\<open>None\<close> when the header is absent or empty, where
  the code takes \<open>'60'\<close>; a header that is not a number, which gives NaN, is not
  modelled) and its body text. The network is a function from the number of calls made
  so far to the outcome of the next call.
\<close>

datatype fetch_outcome = Rejected string | Response nat "int option" string

type_synonym network = "nat \<Rightarrow> fetch_outcome"

text \<open>\<open>response.ok\<close>: the status is in the range 200 to 299.\<close>

definition response_ok :: "nat \<Rightarrow> bool" where
  "response_ok status = (200 \<le> status \<and> status \<le> 299)"

text \<open>\<open>getBackoffDelay(attempt) = Math.min(1000 * Math.pow(2, attempt), 30000)\<close>\<close>

definition getBackoffDelay :: "nat \<Rightarrow> nat" where
  "getBackoffDelay attempt = min (1000 * 2 ^ attempt) 30000"

text \<open>The calls of \<open>this.sleep\<close> made inside the retry loop, in milliseconds.\<close>

datatype sleep = RateLimitSleep int | BackoffSleep nat

text \<open>
  The \<open>try\<close> block of one loop iteration: it returns the body, reaches \<open>continue\<close> after
  the rate-limit sleep, or throws into the \<open>catch\<close> block.
\<close>

datatype try_result = Returned string | Continued int | Thrown js_error

definition try_block :: "fetch_outcome \<Rightarrow> try_result" where
  "try_block outcome =
     (case outcome of
        Rejected name \<Rightarrow> Thrown (FetchRejected name)
      | Response status retryAfterHeader body \<Rightarrow>
          if \<not> response_ok status then
            if status = 429
            then Continued ((case retryAfterHeader of None \<Rightarrow> 60 | Some n \<Rightarrow> n) * 1000)
            else Thrown (HttpError status)
          else Returned body)"

record get_result =
  returned :: "js_error + string"
  attempts :: nat
  sleeps :: "sleep list"

text \<open>
  The \<open>for\<close> loop of \<open>HttpClient.get\<close>, from the iteration with counter \<open>attempt\<close> on.
  Every way round the loop, \<open>continue\<close> included, runs the \<open>attempt++\<close> of the loop
  header. \<open>attempts\<close> counts the calls of \<open>fetch\<close>, \<open>sleeps\<close> logs the sleeps, and
  \<open>returned\<close> is the returned body (\<open>Inr\<close>) or the thrown error (\<open>Inl\<close>).
\<close>

function get_loop ::
  "nat \<Rightarrow> network \<Rightarrow> nat \<Rightarrow> js_error option \<Rightarrow> sleep list \<Rightarrow> get_result" where
  "get_loop maxRetries fetch attempt lastError slept =
     (if attempt < maxRetries then
        (case try_block (fetch attempt) of
           Returned body \<Rightarrow>
             \<lparr>returned = Inr body, attempts = Suc attempt, sleeps = slept\<rparr>
         | Continued ms \<Rightarrow>
             get_loop maxRetries fetch (Suc attempt) lastError (slept @ [RateLimitSleep ms])
         | Thrown error \<Rightarrow>
             if error_status error = Some 404 \<or> error_status error = Some 403
             then \<lparr>returned = Inl error, attempts = Suc attempt, sleeps = slept\<rparr>
             else if int attempt < int maxRetries - 1
             then get_loop maxRetries fetch (Suc attempt) (Some error)
                    (slept @ [BackoffSleep (getBackoffDelay attempt)])
             else get_loop maxRetries fetch (Suc attempt) (Some error) slept)
      else \<lparr>returned = Inl (case lastError of None \<Rightarrow> RequestFailed | Some error \<Rightarrow> error),
            attempts = attempt, sleeps = slept\<rparr>)"
  by pat_completeness auto
termination
  by (relation "measure (\<lambda>(maxRetries, fetch, attempt, lastError, slept). maxRetries - attempt)")
     auto

text \<open>
  \<open>HttpClient.get(url)\<close> with \<open>options.maxRetries = maxRetries\<close>. The semaphore and the
  throttle \<open>randomDelay\<close> run before the loop and the release after it; they decide when
  the loop runs, not what it does, and are left out.
\<close>

definition get :: "nat \<Rightarrow> network \<Rightarrow> get_result" where
  "get maxRetries fetch = get_loop maxRetries fetch 0 None []"

text \<open>A network that answers 429 to the first \<open>k\<close> calls and 200 with \<open>body\<close> from then on.\<close>

definition rate_limited_then_ok :: "nat \<Rightarrow> string \<Rightarrow> network" where
  "rate_limited_then_ok k body i = (if i < k then Response 429 None [] else Response 200 None body)"

text \<open>A network that answers every call with the given status and an empty body.\<close>

definition always_status :: "nat \<Rightarrow> network" where
  "always_status status i = Response status None []"


section \<open>The store (db/schema.ts, db/database.ts)\<close>

text \<open>
  The tables of \<open>CREATE_TABLES_SQL\<close> as lists of rows in table order. The columns that no
  statement modelled here reads (\<open>description\<close>, \<open>created_at\<close>, \<open>updated_at\<close> and the
  serial \<open>id\<close> of channels and events) are left out. Timestamps are time values in
  milliseconds; the integer flags are kept as integers. The store itself is an
  external collaborator: connection failures and constraint violations are not
  modelled, each statement is modelled by what it does to the tables.
\<close>

datatype EventType = new_video | live_started | live_ended | scheduled_live | video_updated

record DBChannel =
  ch_channel_id :: string
  ch_title :: string
  ch_description :: "string option"
  ch_thumbnail_url :: "string option"
  last_checked_at :: "int option"
  is_active :: int

record DBVideo =
  row_id :: nat
  video_id :: string
  channel_id :: string
  db_title :: string
  thumbnail_url :: string
  published_at :: int
  db_type :: VideoType
  db_duration :: "int option"
  scheduled_start_time :: "int option"
  is_live :: int
  is_live_content :: int
  is_upcoming :: int
  bookmarked :: int

text \<open>The object that \<open>upsertVideo\<close> passes to \<open>addEvent\<close>, stored as JSON in \<open>data\<close>.\<close>

record EventData =
  previousType :: "VideoType option"
  newType :: VideoType
  wasLive :: bool
  nowLive :: bool

record DBEvent =
  event_type :: EventType
  ev_video_id :: string
  ev_channel_id :: string
  data :: "EventData option"

text \<open>
  \<open>videos_id_seq\<close> is the sequence behind \<open>videos.id SERIAL\<close>: every \<open>INSERT\<close> draws the
  next value, also one that ends in the \<open>ON CONFLICT\<close> branch.
\<close>

record Database =
  channels_table :: "DBChannel list"
  videos_table :: "DBVideo list"
  events_table :: "DBEvent list"
  videos_id_seq :: nat

text \<open>\<open>Date.prototype.toISOString\<close>: throws a \<open>RangeError\<close> on an Invalid Date.\<close>

definition toISOString :: "date \<Rightarrow> js_error + int" where
  "toISOString d = (case d of None \<Rightarrow> Inl RangeError | Some t \<Rightarrow> Inr t)"

text \<open>\<^verbatim>\<open>SELECT * FROM channels WHERE channel_id = $1\<close>, \<open>rows[0]\<close>\<close>

definition getChannel :: "string \<Rightarrow> Database \<Rightarrow> DBChannel option" where
  "getChannel cid db = find (\<lambda>c. ch_channel_id c = cid) (channels_table db)"

text \<open>\<^verbatim>\<open>UPDATE channels SET last_checked_at = CURRENT_TIMESTAMP WHERE channel_id = $1\<close>\<close>

definition updateChannelLastChecked :: "string \<Rightarrow> int \<Rightarrow> Database \<Rightarrow> Database" where
  "updateChannelLastChecked cid now db =
     db\<lparr>channels_table :=
          map (\<lambda>c. if ch_channel_id c = cid then c\<lparr>last_checked_at := Some now\<rparr> else c)
            (channels_table db)\<rparr>"

text \<open>\<^verbatim>\<open>SELECT * FROM videos WHERE video_id = $1\<close>, \<open>rows[0]\<close>\<close>

definition getVideo :: "string \<Rightarrow> Database \<Rightarrow> DBVideo option" where
  "getVideo vid db = find (\<lambda>r. video_id r = vid) (videos_table db)"

text \<open>\<^verbatim>\<open>INSERT INTO events (event_type, video_id, channel_id, data) VALUES (...)\<close>\<close>

definition addEvent :: "EventType \<Rightarrow> string \<Rightarrow> string \<Rightarrow> EventData \<Rightarrow> Database \<Rightarrow> Database" where
  "addEvent ev vid cid d db =
     db\<lparr>events_table := events_table db @
          [\<lparr>event_type = ev, ev_video_id = vid, ev_channel_id = cid, data = Some d\<rparr>]\<rparr>"

text \<open>The integer written for a boolean: \<^verbatim>\<open>video.isLive ? 1 : 0\<close>.\<close>

definition flag :: "bool \<Rightarrow> int" where
  "flag b = (if b then 1 else 0)"

text \<open>\<^verbatim>\<open>video.duration || null\<close>: a duration of 0 is falsy and is stored as \<open>NULL\<close>.\<close>

definition duration_or_null :: "int option \<Rightarrow> int option" where
  "duration_or_null d = (case d of None \<Rightarrow> None | Some n \<Rightarrow> if n = 0 then None else Some n)"

text \<open>The row a fresh \<open>INSERT\<close> writes; \<open>bookmarked\<close> takes its column default 0.\<close>

definition inserted_row ::
  "nat \<Rightarrow> VideoInfo \<Rightarrow> string \<Rightarrow> int \<Rightarrow> int option \<Rightarrow> DBVideo" where
  "inserted_row rid video cid published scheduled =
     \<lparr>row_id = rid, video_id = videoId video, channel_id = cid, db_title = title video,
      thumbnail_url = thumbnailUrl video, published_at = published, db_type = type video,
      db_duration = duration_or_null (duration video), scheduled_start_time = scheduled,
      is_live = flag (isLive video), is_live_content = flag (isLiveContent video),
      is_upcoming = flag (isUpcoming video), bookmarked = 0\<rparr>"

text \<open>
  The \<open>DO UPDATE SET\<close> list of the conflict branch: title, thumbnail, type, duration,
  scheduled start and the three flags are overwritten; \<open>id\<close>, \<open>channel_id\<close>,
  \<open>published_at\<close> and \<open>bookmarked\<close> are not in the list.
\<close>

definition updated_row :: "DBVideo \<Rightarrow> VideoInfo \<Rightarrow> int option \<Rightarrow> DBVideo" where
  "updated_row r video scheduled =
     r\<lparr>db_title := title video, thumbnail_url := thumbnailUrl video, db_type := type video,
       db_duration := duration_or_null (duration video), scheduled_start_time := scheduled,
       is_live := flag (isLive video), is_live_content := flag (isLiveContent video),
       is_upcoming := flag (isUpcoming video)\<rparr>"

text \<open>
  The block ``Determina o tipo de evento'' of \<open>upsertVideo\<close>. \<open>existing.is_live\<close> is a
  number and is tested for truthiness: it is true when it is not 0.
\<close>

definition upsert_event :: "DBVideo option \<Rightarrow> VideoInfo \<Rightarrow> EventType option" where
  "upsert_event existing video =
     (case existing of
        None \<Rightarrow>
          if isLive video then Some live_started
          else if isUpcoming video then Some scheduled_live
          else Some new_video
      | Some e \<Rightarrow>
          if \<not> (is_live e \<noteq> 0) \<and> isLive video then Some live_started
          else if is_live e \<noteq> 0 \<and> \<not> isLive video then Some live_ended
          else if db_type e \<noteq> type video \<or> db_title e \<noteq> title video then Some video_updated
          else None)"

definition event_data :: "DBVideo option \<Rightarrow> VideoInfo \<Rightarrow> EventData" where
  "event_data existing video =
     \<lparr>previousType = map_option db_type existing, newType = type video,
      wasLive = (case existing of None \<Rightarrow> False | Some e \<Rightarrow> is_live e = 1),
      nowLive = isLive video\<rparr>"

text \<open>
  \<open>upsertVideo(video, channelId)\<close>. The two \<open>toISOString\<close> calls run while the parameter
  array is built, before the statement is sent, so a \<open>RangeError\<close> leaves the store as it
  was. The result is the new store, the row of \<open>RETURNING *\<close> and the event.
\<close>

definition upsertVideo ::
  "VideoInfo \<Rightarrow> string \<Rightarrow> Database \<Rightarrow> js_error + (Database \<times> DBVideo \<times> EventType option)" where
  "upsertVideo video cid db =
     (let existing = getVideo (videoId video) db in
      case toISOString (publishedAt video) of
        Inl err \<Rightarrow> Inl err
      | Inr published \<Rightarrow>
         (case (case scheduledStartTime video of
                  None \<Rightarrow> Inr None
                | Some d \<Rightarrow> (case toISOString d of Inl err \<Rightarrow> Inl err | Inr t \<Rightarrow> Inr (Some t))) of
            Inl err \<Rightarrow> Inl err
          | Inr scheduled \<Rightarrow>
             (let dbVideo =
                    (case existing of
                       None \<Rightarrow> inserted_row (videos_id_seq db) video cid published scheduled
                     | Some e \<Rightarrow> updated_row e video scheduled);
                  db1 = db\<lparr>videos_table :=
                             (case existing of
                                None \<Rightarrow> videos_table db @ [dbVideo]
                              | Some e \<Rightarrow>
                                  map (\<lambda>r. if video_id r = videoId video
                                            then updated_row r video scheduled else r)
                                    (videos_table db)),
                           videos_id_seq := Suc (videos_id_seq db)\<rparr>;
                  event = upsert_event existing video;
                  db2 = (case event of
                           None \<Rightarrow> db1
                         | Some ev \<Rightarrow>
                             addEvent ev (videoId video) cid (event_data existing video) db1)
              in Inr (db2, dbVideo, event))))"

text \<open>
  \<open>deleteVideo(videoId)\<close>: the events of the video, then the video, in one transaction;
  the result is \<open>rowCount > 0\<close> of the second statement.
\<close>

definition deleteVideo :: "string \<Rightarrow> Database \<Rightarrow> Database \<times> bool" where
  "deleteVideo vid db =
     (db\<lparr>events_table := filter (\<lambda>e. ev_video_id e \<noteq> vid) (events_table db),
         videos_table := filter (\<lambda>r. video_id r \<noteq> vid) (videos_table db)\<rparr>,
      getVideo vid db \<noteq> None)"

text \<open>
  \<open>getLiveVideos(channelId?)\<close>:
  \<^verbatim>\<open>SELECT * FROM videos WHERE is_live = 1 AND channel_id = $1\<close>, or without the channel
  test when no channel is given.
\<close>

definition getLiveVideos :: "string option \<Rightarrow> Database \<Rightarrow> DBVideo list" where
  "getLiveVideos cid db =
     (case cid of
        Some c \<Rightarrow> filter (\<lambda>r. is_live r = 1 \<and> channel_id r = c) (videos_table db)
      | None \<Rightarrow> filter (\<lambda>r. is_live r = 1) (videos_table db))"

text \<open>\<open>bookmarkVideo\<close> and \<open>unbookmarkVideo\<close>, the only writers of \<open>bookmarked\<close>.\<close>

definition bookmarkVideo :: "string \<Rightarrow> Database \<Rightarrow> Database" where
  "bookmarkVideo vid db =
     db\<lparr>videos_table :=
          map (\<lambda>r. if video_id r = vid then r\<lparr>bookmarked := 1\<rparr> else r) (videos_table db)\<rparr>"

definition unbookmarkVideo :: "string \<Rightarrow> Database \<Rightarrow> Database" where
  "unbookmarkVideo vid db =
     db\<lparr>videos_table :=
          map (\<lambda>r. if video_id r = vid then r\<lparr>bookmarked := 0\<rparr> else r) (videos_table db)\<rparr>"

text \<open>
  The transition table of the specification, row by row: the condition on the previous
  persisted state and the newly observed signals, and the event of the row (\<open>None\<close> for
  the row that emits nothing). The stored live flag counts as true when it is not 0.
\<close>

definition transition_table ::
  "DBVideo option \<Rightarrow> VideoInfo \<Rightarrow> (bool \<times> EventType option) list" where
  "transition_table previous video =
     [(previous = None \<and> isLive video, Some live_started),
      (previous = None \<and> \<not> isLive video \<and> isUpcoming video, Some scheduled_live),
      (previous = None \<and> \<not> isLive video \<and> \<not> isUpcoming video, Some new_video),
      ((case previous of None \<Rightarrow> False | Some p \<Rightarrow> is_live p = 0 \<and> isLive video),
       Some live_started),
      ((case previous of None \<Rightarrow> False | Some p \<Rightarrow> is_live p \<noteq> 0 \<and> \<not> isLive video),
       Some live_ended),
      ((case previous of None \<Rightarrow> False
        | Some p \<Rightarrow> (is_live p \<noteq> 0) = isLive video \<and>
                    (db_type p \<noteq> type video \<or> db_title p \<noteq> title video)),
       Some video_updated),
      ((case previous of None \<Rightarrow> False
        | Some p \<Rightarrow> (is_live p \<noteq> 0) = isLive video \<and>
                    db_type p = type video \<and> db_title p = title video),
       None)]"


subsection \<open>Retention cleanup\<close>

text \<open>
  \<^verbatim>\<open>ROW_NUMBER() OVER (PARTITION BY channel_id ORDER BY published_at DESC)\<close>: the rows of
  one channel in descending order of \<open>published_at\<close>; the row at position \<open>i\<close> (from 0)
  has \<open>rn = i + 1\<close>. SQL leaves the order of rows with equal \<open>published_at\<close> open; the
  sort here is stable, so such rows keep their table order.
\<close>

definition ranked :: "string \<Rightarrow> DBVideo list \<Rightarrow> DBVideo list" where
  "ranked cid rows = sort_key (\<lambda>r. - published_at r) (filter (\<lambda>r. channel_id r = cid) rows)"

text \<open>
  The subquery \<^verbatim>\<open>SELECT ... FROM ranked WHERE rn > $1 AND bookmarked = 0\<close>: in each
  partition, the rows after the first \<open>maxPerChannel\<close> that are not bookmarked.
\<close>

definition beyond_limit :: "nat \<Rightarrow> DBVideo list \<Rightarrow> DBVideo list" where
  "beyond_limit maxPerChannel rows =
     concat (map (\<lambda>cid. filter (\<lambda>r. bookmarked r = 0) (drop maxPerChannel (ranked cid rows)))
               (remdups (map channel_id rows)))"

text \<open>
  \<open>cleanupOldVideos(maxPerChannel)\<close>: delete the events whose \<open>video_id\<close> the subquery
  selects, then the videos whose \<open>id\<close> it selects; the result is the \<open>rowCount\<close> of the
  second statement.
\<close>

definition cleanupOldVideos :: "nat \<Rightarrow> Database \<Rightarrow> Database \<times> nat" where
  "cleanupOldVideos maxPerChannel db =
     (let db1 = db\<lparr>events_table :=
                     filter (\<lambda>e. ev_video_id e \<notin>
                               set (map video_id (beyond_limit maxPerChannel (videos_table db))))
                       (events_table db)\<rparr>;
          db2 = db1\<lparr>videos_table :=
                      filter (\<lambda>r. row_id r \<notin>
                                set (map row_id (beyond_limit maxPerChannel (videos_table db1))))
                        (videos_table db1)\<rparr>
      in (db2, length (videos_table db1) - length (videos_table db2)))"


section \<open>The scraper's feed scan (youtube-scraper.ts)\<close>

definition getTypeFromFeed :: "FeedType \<Rightarrow> VideoType" where
  "getTypeFromFeed feedType =
     (case feedType of Shorts \<Rightarrow> Short | Lives \<Rightarrow> Vod | Videos \<Rightarrow> Video)"

text \<open>The record \<open>getChannelVideos\<close> pushes for one feed item.\<close>

definition feed_video :: "FeedType \<Rightarrow> RSSItem \<Rightarrow> VideoInfo" where
  "feed_video feedType item =
     \<lparr>videoId = rss_videoId item, title = rss_title item, publishedAt = rss_publishedAt item,
      thumbnailUrl = rss_thumbnailUrl item, type = getTypeFromFeed feedType,
      duration = None, scheduledStartTime = None,
      isLive = False, isLiveContent = (feedType = Lives), isUpcoming = False\<rparr>"

text \<open>
  \<open>getChannelVideos(channelId, options)\<close> with \<open>classifyVideos: false\<close>, which is how
  \<open>checkChannel\<close> calls it: the feeds in the order of the result map, each cut to
  \<open>maxVideosPerFeed\<close> items, then the deduplication. \<open>feedResults\<close> is what
  \<open>getAllChannelVideos\<close> returned.
\<close>

definition getChannelVideos :: "nat \<Rightarrow> (FeedType \<times> RSSItem list) list \<Rightarrow> VideoInfo list" where
  "getChannelVideos maxVideosPerFeed feedResults =
     deduplicateVideos
       (concat (map (\<lambda>(feedType, items). map (feed_video feedType) (take maxVideosPerFeed items))
                  feedResults))"


section \<open>The monitor (services/monitor.ts)\<close>

text \<open>
  \<open>title.toLowerCase().includes('#shorts')\<close>. Titles are byte strings (UTF-8); lowering
  the ASCII letters is all that can produce the ASCII pattern.
\<close>

definition lower_char :: "char \<Rightarrow> char" where
  "lower_char c =
     (if (65::nat) \<le> of_char c \<and> (of_char c :: nat) \<le> 90 then char_of (of_char c + (32::nat)) else c)"

definition toLowerCase :: "string \<Rightarrow> string" where
  "toLowerCase s = map lower_char s"

fun string_includes :: "string \<Rightarrow> string \<Rightarrow> bool" where
  "string_includes [] pat = (pat = [])"
| "string_includes (c # cs) pat = (prefix pat (c # cs) \<or> string_includes cs pat)"

text \<open>
  What the monitor emits through its \<open>EventEmitter\<close>, in order. The listeners are
  external and are taken not to throw.
\<close>

datatype emission =
    VideoEvent EventType VideoInfo ChannelInfo
  | ErrorEvent js_error "string option"
  | ChannelChecked string nat

record Monitor =
  store :: Database
  channelCache :: "string \<rightharpoonup> ChannelInfo"
  emitted :: "emission list"

text \<open>
  The body of the \<open>for (const video of videos)\<close> loop up to the upsert: the chain of
  \<open>continue\<close> filters and the final test \<open>video.type === 'video'\<close>. True when the
  iteration reaches \<open>db.upsertVideo\<close>.
\<close>

definition reaches_upsert :: "string list \<Rightarrow> VideoInfo \<Rightarrow> bool" where
  "reaches_upsert shortVideoIds video =
     (if type video = Short then False
      else if (case duration video of None \<Rightarrow> False | Some d \<Rightarrow> d \<noteq> 0 \<and> d < 120) then False
      else if videoId video \<in> set shortVideoIds then False
      else if string_includes (toLowerCase (title video)) ''#shorts'' then False
      else if type video = Vod \<or> isLiveContent video then False
      else if type video = Live \<or> isLive video then False
      else if type video = Video then True
      else False)"

text \<open>
  The loop over the feed-scanned videos. The result is the store, the emissions and the
  error that left the loop, if one did: an error thrown by \<open>upsertVideo\<close> ends the loop
  and what was written before it stays written.
\<close>

fun processVideos ::
  "string \<Rightarrow> ChannelInfo option \<Rightarrow> string list \<Rightarrow> VideoInfo list \<Rightarrow> Database \<Rightarrow> emission list
   \<Rightarrow> Database \<times> emission list \<times> js_error option" where
  "processVideos cid channelInfo shortVideoIds [] db out = (db, out, None)"
| "processVideos cid channelInfo shortVideoIds (video # rest) db out =
     (if reaches_upsert shortVideoIds video then
        (case upsertVideo video cid db of
           Inl err \<Rightarrow> (db, out, Some err)
         | Inr (db', row, event) \<Rightarrow>
             processVideos cid channelInfo shortVideoIds rest db'
               (case (event, channelInfo) of
                  (Some ev, Some info) \<Rightarrow> out @ [VideoEvent ev video info]
                | _ \<Rightarrow> out))
      else processVideos cid channelInfo shortVideoIds rest db out)"

text \<open>
  \<open>cleanupEndedLives(channelId, currentLive)\<close>: the saved live rows of the channel are
  read once, then each one that is not the current live is deleted.
\<close>

definition cleanupEndedLives :: "string \<Rightarrow> VideoInfo option \<Rightarrow> Database \<Rightarrow> Database" where
  "cleanupEndedLives cid currentLive db =
     fold (\<lambda>savedLive d.
             if (case currentLive of None \<Rightarrow> True
                 | Some cur \<Rightarrow> video_id savedLive \<noteq> videoId cur)
             then fst (deleteVideo (video_id savedLive) d) else d)
       (getLiveVideos (Some cid) db) db"

text \<open>The \<open>ChannelInfo\<close> built from a channel row; \<open>x || undefined\<close> drops an empty string.\<close>

definition or_undefined :: "string option \<Rightarrow> string option" where
  "or_undefined x = (case x of None \<Rightarrow> None | Some t \<Rightarrow> if t = [] then None else Some t)"

definition channel_info_of :: "DBChannel \<Rightarrow> ChannelInfo" where
  "channel_info_of dbChannel =
     \<lparr>ci_channelId = ch_channel_id dbChannel, ci_title = ch_title dbChannel,
      ci_description = or_undefined (ch_description dbChannel),
      ci_thumbnailUrl = or_undefined (ch_thumbnail_url dbChannel)\<rparr>"

text \<open>
  The \<open>try\<close> block of \<open>checkChannel(channelId)\<close>. The scraper is an input: \<open>feedResults\<close>
  is the result of the feed fetch and \<open>liveNow\<close> the result of \<open>checkLiveStatus\<close>
  (\<open>None\<close> for \<open>null\<close>); \<open>now\<close> is the store's clock. The result is the monitor after
  the block and what the block did: it threw (\<open>Inl\<close>) or returned a list (\<open>Inr\<close>).
\<close>

definition checkChannel_try ::
  "string \<Rightarrow> nat \<Rightarrow> (FeedType \<times> RSSItem list) list \<Rightarrow> VideoInfo option \<Rightarrow> int \<Rightarrow> Monitor
   \<Rightarrow> Monitor \<times> (js_error + VideoInfo list)" where
  "checkChannel_try cid maxVideosPerFeed feedResults liveNow now m =
     (case getChannel cid (store m) of
        None \<Rightarrow> (m\<lparr>channelCache := (channelCache m)(cid := None)\<rparr>, Inr [])
      | Some channel \<Rightarrow>
         (let videos = getChannelVideos maxVideosPerFeed feedResults;
              channelInfo =
                (case channelCache m cid of
                   Some info \<Rightarrow> Some info
                 | None \<Rightarrow> map_option channel_info_of (getChannel cid (store m)));
              m1 = (case (channelCache m cid, channelInfo) of
                      (None, Some info) \<Rightarrow> m\<lparr>channelCache := (channelCache m)(cid \<mapsto> info)\<rparr>
                    | _ \<Rightarrow> m)
          in case (case (liveNow, channelInfo) of
                     (Some live, Some info) \<Rightarrow>
                       (case upsertVideo live cid (store m1) of
                          Inl err \<Rightarrow> Inl err
                        | Inr (db', row, event) \<Rightarrow>
                            Inr (db', (case event of
                                         None \<Rightarrow> emitted m1
                                       | Some ev \<Rightarrow> emitted m1 @ [VideoEvent ev live info])))
                   | _ \<Rightarrow> Inr (store m1, emitted m1)) of
               Inl err \<Rightarrow> (m1, Inl err)
             | Inr (db2, out2) \<Rightarrow>
                (let shortVideoIds = map videoId (filter (\<lambda>v. type v = Short) videos)
                 in case processVideos cid channelInfo shortVideoIds videos db2 out2 of
                      (db3, out3, Some err) \<Rightarrow> (m1\<lparr>store := db3, emitted := out3\<rparr>, Inl err)
                    | (db3, out3, None) \<Rightarrow>
                        (m1\<lparr>store := updateChannelLastChecked cid now
                                        (cleanupEndedLives cid liveNow db3),
                            emitted := out3 @ [ChannelChecked cid (length videos)]\<rparr>,
                         Inr videos))))"

text \<open>
  \<open>checkChannel(channelId)\<close>: the \<open>catch\<close> block emits the error with the channel
  identifier and returns the empty list.
\<close>

definition checkChannel ::
  "string \<Rightarrow> nat \<Rightarrow> (FeedType \<times> RSSItem list) list \<Rightarrow> VideoInfo option \<Rightarrow> int \<Rightarrow> Monitor
   \<Rightarrow> Monitor \<times> VideoInfo list" where
  "checkChannel cid maxVideosPerFeed feedResults liveNow now m =
     (case checkChannel_try cid maxVideosPerFeed feedResults liveNow now m of
        (m', Inl err) \<Rightarrow> (m'\<lparr>emitted := emitted m' @ [ErrorEvent err (Some cid)]\<rparr>, [])
      | (m', Inr result) \<Rightarrow> (m', result))"


section \<open>Derived notions and concrete states\<close>

text \<open>The rows of one channel, and among them the unbookmarked and the bookmarked ones.\<close>

definition channel_rows :: "string \<Rightarrow> Database \<Rightarrow> DBVideo list" where
  "channel_rows cid db = filter (\<lambda>r. channel_id r = cid) (videos_table db)"

definition unbookmarked_rows :: "string \<Rightarrow> Database \<Rightarrow> DBVideo list" where
  "unbookmarked_rows cid db = filter (\<lambda>r. bookmarked r = 0) (channel_rows cid db)"

definition bookmarked_rows :: "string \<Rightarrow> Database \<Rightarrow> DBVideo list" where
  "bookmarked_rows cid db = filter (\<lambda>r. bookmarked r \<noteq> 0) (channel_rows cid db)"

text \<open>The rows of a channel that are in the store \<open>db\<close> and no longer in \<open>db'\<close>.\<close>

definition deleted_rows :: "string \<Rightarrow> Database \<Rightarrow> Database \<Rightarrow> DBVideo list" where
  "deleted_rows cid db db' = filter (\<lambda>r. r \<notin> set (channel_rows cid db')) (channel_rows cid db)"

definition channel_row :: DBChannel where
  "channel_row =
     \<lparr>ch_channel_id = ''UC1'', ch_title = ''Channel'', ch_description = None,
      ch_thumbnail_url = None, last_checked_at = None, is_active = 1\<rparr>"

definition empty_store :: Database where
  "empty_store =
     \<lparr>channels_table = [channel_row], videos_table = [], events_table = [], videos_id_seq = 1\<rparr>"

text \<open>A plain upload, and a store that already holds it, bookmarked, under an older title.\<close>

definition upload :: VideoInfo where
  "upload =
     \<lparr>videoId = ''aaaaaaaaaaa'', title = ''First upload'', publishedAt = Some 1000,
      thumbnailUrl = ''a.jpg'', type = Video, duration = None, scheduledStartTime = None,
      isLive = False, isLiveContent = False, isUpcoming = False\<rparr>"

definition bookmarked_row :: DBVideo where
  "bookmarked_row =
     \<lparr>row_id = 1, video_id = ''aaaaaaaaaaa'', channel_id = ''UC1'', db_title = ''Old title'',
      thumbnail_url = ''a.jpg'', published_at = 1000, db_type = Video, db_duration = None,
      scheduled_start_time = None, is_live = 0, is_live_content = 0, is_upcoming = 0,
      bookmarked = 1\<rparr>"

definition bookmarked_store :: Database where
  "bookmarked_store =
     \<lparr>channels_table = [channel_row], videos_table = [bookmarked_row], events_table = [],
      videos_id_seq = 2\<rparr>"

text \<open>
  Seventeen rows of one channel, row \<open>n\<close> published at time \<open>n\<close>: fifteen unbookmarked and
  two bookmarked ones, the bookmarked being the two newest in one store and the two
  oldest in the other.
\<close>

definition retention_row :: "nat \<Rightarrow> int \<Rightarrow> DBVideo" where
  "retention_row n b =
     \<lparr>row_id = n, video_id = replicate n (CHR ''v''), channel_id = ''UC1'', db_title = ''t'',
      thumbnail_url = ''u'', published_at = int n, db_type = Video, db_duration = None,
      scheduled_start_time = None, is_live = 0, is_live_content = 0, is_upcoming = 0,
      bookmarked = b\<rparr>"

definition newest_bookmarked_store :: Database where
  "newest_bookmarked_store =
     \<lparr>channels_table = [channel_row],
      videos_table =
        map (\<lambda>n. retention_row n 0) [1..<16] @ [retention_row 16 1, retention_row 17 1],
      events_table = [], videos_id_seq = 18\<rparr>"

definition oldest_bookmarked_store :: Database where
  "oldest_bookmarked_store =
     \<lparr>channels_table = [channel_row],
      videos_table =
        [retention_row 1 1, retention_row 2 1] @ map (\<lambda>n. retention_row n 0) [3..<18],
      events_table = [], videos_id_seq = 18\<rparr>"

text \<open>
  A store in which the channel has two rows marked live, a monitor on it, and the feed
  result of one cycle: one item in the uploads feed and one in the lives feed.
\<close>

definition stale_live_row :: "nat \<Rightarrow> DBVideo" where
  "stale_live_row n =
     \<lparr>row_id = n, video_id = replicate n (CHR ''s''), channel_id = ''UC1'',
      db_title = ''Earlier stream'', thumbnail_url = ''s.jpg'', published_at = int n,
      db_type = Live, db_duration = None, scheduled_start_time = None, is_live = 1,
      is_live_content = 0, is_upcoming = 0, bookmarked = 0\<rparr>"

definition two_lives_monitor :: Monitor where
  "two_lives_monitor =
     \<lparr>store = \<lparr>channels_table = [channel_row],
                videos_table = [stale_live_row 1, stale_live_row 2],
                events_table = [], videos_id_seq = 3\<rparr>,
      channelCache = Map.empty, emitted = []\<rparr>"

definition feed_item :: "string \<Rightarrow> string \<Rightarrow> RSSItem" where
  "feed_item vid t =
     \<lparr>rss_videoId = vid, rss_title = t, rss_publishedAt = Some 2000, rss_thumbnailUrl = ''f.jpg''\<rparr>"

definition cycle_feeds :: "(FeedType \<times> RSSItem list) list" where
  "cycle_feeds =
     [(Lives, [feed_item ''bbbbbbbbbbb'' ''Past stream'']),
      (Videos, [feed_item ''aaaaaaaaaaa'' ''First upload''])]"


section \<open>Theorems: classifier\<close>

text \<open>
  C4. The classifier is a total function of the signal tuple and implements the six
  rules with first match winning: reading the rule table of the specification from the
  top always finds a rule, and the type of the first rule whose condition holds is the
  type \<open>classifyVideo\<close> returns.
\<close>

theorem classifyVideo_first_match:
  "first_match (classification_rules props feedHint) = Some (classifyVideo props feedHint)"
  by (cases "pr_duration props")
     (simp_all add: classification_rules_def classifyVideo_def truthy_def
        SHORTS_MAX_DURATION_def)


section \<open>Theorems: deduplication\<close>

lemma map_set_keys:
  "map fst (map_set m k v) = (if k \<in> set (map fst m) then map fst m else map fst m @ [k])"
  by (induction m) force+

theorem classifyVideo_first_match_witness:
  "first_match (classification_rules
      \<lparr>pr_isLive = None, pr_isLiveContent = None, pr_isUpcoming = Some True,
       pr_duration = Some 45, pr_scheduledStartTime = None\<rparr> None) = Some Short"
  using classifyVideo_first_match [of
      "\<lparr>pr_isLive = None, pr_isLiveContent = None, pr_isUpcoming = Some True,
        pr_duration = Some 45, pr_scheduledStartTime = None\<rparr>" None]
  by (simp add: classifyVideo_def truthy_def SHORTS_MAX_DURATION_def)

lemma map_set_fresh: "k \<notin> fst ` set m \<Longrightarrow> map_set m k v = m @ [(k, v)]"
  by (induction m) auto

lemma map_set_keyed:
  "\<forall>p\<in>set m. videoId (snd p) = fst p \<Longrightarrow>
   \<forall>p\<in>set (map_set m (videoId v) v). videoId (snd p) = fst p"
  by (induction m) (fastforce split: if_splits)+

lemma dedup_loop_distinct:
  "distinct (map fst seen) \<Longrightarrow> distinct (map fst (dedup_loop seen videos))"
proof (induction videos arbitrary: seen)
  case Nil
  then show ?case by simp
next
  case (Cons video videos)
  have "distinct (map fst (map_set seen (videoId video) video))"
    using Cons.prems by (simp add: map_set_keys)
  with Cons show ?case
    by (simp split: option.splits)
qed

lemma dedup_loop_keyed:
  "\<forall>p\<in>set seen. videoId (snd p) = fst p \<Longrightarrow>
   \<forall>p\<in>set (dedup_loop seen videos). videoId (snd p) = fst p"
proof (induction videos arbitrary: seen)
  case Nil
  then show ?case by simp
next
  case (Cons video videos)
  note step = map_set_keyed [OF Cons.prems, of video]
  show ?case
    using Cons.IH [OF step] Cons.IH [OF Cons.prems]
    by (simp split: option.splits)
qed

text \<open>
  On a list whose identifiers are all different and all new to \<open>seen\<close>, the loop only
  appends.
\<close>

lemma dedup_loop_fresh:
  "distinct (map fst (seen @ m)) \<Longrightarrow> \<forall>p\<in>set m. videoId (snd p) = fst p \<Longrightarrow>
   dedup_loop seen (map snd m) = seen @ m"
proof (induction m arbitrary: seen)
  case Nil
  then show ?case by simp
next
  case (Cons p m)
  obtain k v where p: "p = (k, v)" by (cases p)
  from Cons.prems p have k: "videoId v = k" and fresh: "k \<notin> fst ` set seen"
    by auto
  then have lookup: "map_get seen (videoId v) = None"
    by (simp add: map_get_def map_of_eq_None_iff)
  have "dedup_loop (seen @ [(k, v)]) (map snd m) = (seen @ [(k, v)]) @ m"
    using Cons.prems p by (intro Cons.IH) auto
  then show ?case
    using lookup k fresh p by (simp add: map_set_fresh)
qed

lemma map_set_key_set: "fst ` set (map_set m k v) = insert k (fst ` set m)"
proof -
  have "set (map fst (map_set m k v)) = insert k (set (map fst m))"
    by (simp add: map_set_keys insert_absorb)
  then show ?thesis by simp
qed

lemma dedup_loop_key_set:
  "fst ` set (dedup_loop seen videos) = fst ` set seen \<union> videoId ` set videos"
proof (induction videos arbitrary: seen)
  case Nil
  then show ?case by simp
next
  case (Cons video videos)
  show ?case
  proof (cases "map_get seen (videoId video)")
    case None
    then show ?thesis using Cons.IH by (auto simp: map_set_key_set)
  next
    case (Some existing)
    then have "videoId video \<in> fst ` set seen"
      by (auto simp: map_get_def dest: map_of_SomeD intro: rev_image_eqI)
    then show ?thesis using Some Cons.IH by (auto simp: map_set_key_set)
  qed
qed

text \<open>The result holds each identifier of the input, once.\<close>

lemma deduplicateVideos_one_per_identifier:
  "distinct (map videoId (deduplicateVideos videos)) \<and>
   set (map videoId (deduplicateVideos videos)) = set (map videoId videos)"
proof -
  have keyed: "\<forall>p\<in>set (dedup_loop [] videos). videoId (snd p) = fst p"
    using dedup_loop_keyed [of "[]" videos] by simp
  then have same: "map videoId (deduplicateVideos videos) = map fst (dedup_loop [] videos)"
    by (simp add: deduplicateVideos_def)
  have "distinct (map fst (dedup_loop [] videos))"
    using dedup_loop_distinct [of "[]" videos] by simp
  moreover have "fst ` set (dedup_loop [] videos) = videoId ` set videos"
    using dedup_loop_key_set [of "[]" videos] by simp
  ultimately show ?thesis using same by simp
qed

text \<open>A newcomer that dominates in the priority order does replace the kept record.\<close>

lemma strictly_dominates_replaces:
  "strictly_dominates video existing \<Longrightarrow> shouldReplace video existing"
  by (auto simp: strictly_dominates_def shouldReplace_def outranks_def split: if_splits)

text \<open>
  C5. One record per identifier is kept, and a dominating newcomer replaces the kept
  record, but the replacement test is a plain disjunction and not the priority order:
  a record seen live first and then again as a recording that is no longer live is
  replaced by the recording, although the newcomer does not dominate (the kept record
  wins on live-now, the first preference).
\<close>

theorem deduplicateVideos_priority_inversion:
  "deduplicateVideos [sighting_live, sighting_vod] = [sighting_vod] \<and>
   \<not> strictly_dominates sighting_vod sighting_live"
  by (simp add: deduplicateVideos_def map_get_def shouldReplace_def strictly_dominates_def
      sighting_live_def sighting_vod_def)

text \<open>
  C6. The deduplication merge is idempotent: applied to its own output it returns that
  output, the same records in the same order.
\<close>

theorem deduplicateVideos_idempotent:
  "deduplicateVideos (deduplicateVideos videos) = deduplicateVideos videos"
proof -
  have "distinct (map fst ([] @ dedup_loop [] videos))"
    using dedup_loop_distinct [of "[]" videos] by simp
  moreover have "\<forall>p\<in>set (dedup_loop [] videos). videoId (snd p) = fst p"
    using dedup_loop_keyed [of "[]" videos] by simp
  ultimately have "dedup_loop [] (map snd (dedup_loop [] videos)) = [] @ dedup_loop [] videos"
    by (rule dedup_loop_fresh)
  then show ?thesis by (simp add: deduplicateVideos_def)
qed

theorem deduplicateVideos_idempotent_witness:
  "deduplicateVideos (deduplicateVideos [sighting_live, sighting_vod]) = [sighting_vod]"
  using deduplicateVideos_idempotent [of "[sighting_live, sighting_vod]"]
  by (simp add: deduplicateVideos_def map_get_def shouldReplace_def
      sighting_live_def sighting_vod_def)


section \<open>Theorems: fetch client\<close>

declare get_loop.simps [simp del]

text \<open>A run of rate-limited iterations moves the loop counter along with it.\<close>

lemma get_loop_rate_limited:
  assumes "\<forall>i. attempt \<le> i \<and> i < k \<longrightarrow> try_block (fetch i) = Continued (ms i)"
    and "attempt \<le> k" and "k \<le> maxRetries"
  shows "get_loop maxRetries fetch attempt lastError slept =
         get_loop maxRetries fetch k lastError
           (slept @ map (\<lambda>i. RateLimitSleep (ms i)) [attempt..<k])"
  using assms
proof (induction "k - attempt" arbitrary: attempt slept)
  case 0
  then show ?case by simp
next
  case (Suc d)
  then have lt: "attempt < k" "attempt < maxRetries" by auto
  have here: "try_block (fetch attempt) = Continued (ms attempt)"
    using Suc.prems(1) lt by simp
  have "get_loop maxRetries fetch (Suc attempt) lastError (slept @ [RateLimitSleep (ms attempt)]) =
        get_loop maxRetries fetch k lastError
          ((slept @ [RateLimitSleep (ms attempt)]) @
           map (\<lambda>i. RateLimitSleep (ms i)) [Suc attempt..<k])"
    using Suc.hyps(2) Suc.prems lt by (intro Suc.hyps(1)) auto
  then show ?case
    using lt here by (subst get_loop.simps) (simp add: upt_conv_Cons)
qed

text \<open>
  A 404 or 403 at any iteration ends the loop there: no further call, no further sleep.
\<close>

lemma get_loop_not_found:
  assumes "attempt < maxRetries" and "fetch attempt = Response status retryAfter body"
    and "status = 404 \<or> status = 403"
  shows "get_loop maxRetries fetch attempt lastError slept =
         \<lparr>returned = Inl (HttpError status), attempts = Suc attempt, sleeps = slept\<rparr>"
  using assms by (subst get_loop.simps) (auto simp: try_block_def response_ok_def)


text \<open>
  C3 (as the code has it). When \<open>k\<close> responses with status 429 are followed by a
  success, \<open>get\<close> returns the success payload exactly when \<open>k < maxRetries\<close>. A 429 skips
  the backoff sleep and is not remembered as the last error, but it does use up one of
  the \<open>maxRetries\<close> iterations of the loop: with \<open>k \<ge> maxRetries\<close> the loop ends after
  \<open>maxRetries\<close> calls and \<open>get\<close> throws the generic error \<open>Request failed\<close>. The only
  sleeps are the rate-limit sleeps, one per 429 answered.
\<close>

theorem get_rate_limited_then_success:
  assumes limited: "\<forall>i<k. \<exists>retryAfter text. fetch i = Response 429 retryAfter text"
    and success: "fetch k = Response status retryAfter body" and ok: "response_ok status"
  shows "returned (get maxRetries fetch) = (if k < maxRetries then Inr body else Inl RequestFailed) \<and>
         attempts (get maxRetries fetch) = min (Suc k) maxRetries \<and>
         length (sleeps (get maxRetries fetch)) = min k maxRetries \<and>
         (\<forall>s\<in>set (sleeps (get maxRetries fetch)). \<exists>ms. s = RateLimitSleep ms)"
proof -
  define ms where
    "ms i = (case fetch i of
               Response st ra b \<Rightarrow> (case ra of None \<Rightarrow> 60 | Some n \<Rightarrow> n) * 1000
             | Rejected n \<Rightarrow> 0)" for i
  have run: "\<forall>i. 0 \<le> i \<and> i < k \<longrightarrow> try_block (fetch i) = Continued (ms i)"
    using limited by (auto simp: try_block_def response_ok_def ms_def)
  show ?thesis
  proof (cases "k < maxRetries")
    case True
    have "get maxRetries fetch =
          get_loop maxRetries fetch k None ([] @ map (\<lambda>i. RateLimitSleep (ms i)) [0..<k])"
      unfolding get_def using run True by (intro get_loop_rate_limited) auto
    also have "\<dots> = \<lparr>returned = Inr body, attempts = Suc k,
                      sleeps = map (\<lambda>i. RateLimitSleep (ms i)) [0..<k]\<rparr>"
      using True success ok by (subst get_loop.simps) (simp add: try_block_def)
    finally show ?thesis using True by auto
  next
    case False
    have "get maxRetries fetch =
          get_loop maxRetries fetch maxRetries None
            ([] @ map (\<lambda>i. RateLimitSleep (ms i)) [0..<maxRetries])"
      unfolding get_def using run False by (intro get_loop_rate_limited) auto
    also have "\<dots> = \<lparr>returned = Inl RequestFailed, attempts = maxRetries,
                      sleeps = map (\<lambda>i. RateLimitSleep (ms i)) [0..<maxRetries]\<rparr>"
      by (subst get_loop.simps) simp
    finally show ?thesis using False by auto
  qed
qed

theorem get_rate_limited_then_success_witness:
  "returned (get 3 (rate_limited_then_ok 2 ''ok'')) = Inr ''ok'' \<and>
   attempts (get 3 (rate_limited_then_ok 2 ''ok'')) = 3 \<and>
   returned (get 3 (rate_limited_then_ok 5 ''ok'')) = Inl RequestFailed \<and>
   attempts (get 3 (rate_limited_then_ok 5 ''ok'')) = 3"
  using get_rate_limited_then_success [of 2 "rate_limited_then_ok 2 ''ok''" 200 None "''ok''" 3]
    get_rate_limited_then_success [of 5 "rate_limited_then_ok 5 ''ok''" 200 None "''ok''" 3]
  by (simp add: rate_limited_then_ok_def response_ok_def)

text \<open>
  With \<open>maxRetries = 3\<close>, three 429 responses followed by a 200 response: the loop is
  over before the 200 is asked for, and \<open>get\<close> throws instead of returning the payload.
\<close>

theorem get_rate_limited_exhausts_attempts:
  "rate_limited_then_ok 3 ''ok'' 0 = Response 429 None [] \<and>
   rate_limited_then_ok 3 ''ok'' 1 = Response 429 None [] \<and>
   rate_limited_then_ok 3 ''ok'' 2 = Response 429 None [] \<and>
   rate_limited_then_ok 3 ''ok'' 3 = Response 200 None ''ok'' \<and>
   returned (get 3 (rate_limited_then_ok 3 ''ok'')) = Inl RequestFailed \<and>
   returned (get 3 (rate_limited_then_ok 3 ''ok'')) \<noteq> Inr ''ok''"
  by (simp add: get_def get_loop.simps rate_limited_then_ok_def try_block_def response_ok_def)

text \<open>
  C7. A request whose response has status 404 or 403 fails at once with that HTTP
  error: \<open>fetch\<close> has been called exactly once, and no sleep of the retry loop, backoff
  or other, has been performed.
\<close>

theorem get_not_found_single_attempt:
  assumes "0 < maxRetries" and "fetch 0 = Response status retryAfter body"
    and "status = 404 \<or> status = 403"
  shows "get maxRetries fetch =
         \<lparr>returned = Inl (HttpError status), attempts = 1, sleeps = []\<rparr>"
  unfolding get_def using assms by (simp add: get_loop_not_found)

theorem get_not_found_single_attempt_witness:
  "(0::nat) < 3 \<and> always_status 404 0 = Response 404 None [] \<and>
   get 3 (always_status 404) = \<lparr>returned = Inl (HttpError 404), attempts = 1, sleeps = []\<rparr> \<and>
   get 3 (always_status 403) = \<lparr>returned = Inl (HttpError 403), attempts = 1, sleeps = []\<rparr>"
  using get_not_found_single_attempt [of 3 "always_status 404" 404 None "[]"]
    get_not_found_single_attempt [of 3 "always_status 403" 403 None "[]"]
  by (simp add: always_status_def)


section \<open>Theorems: store\<close>

lemma upsertVideo_returns:
  assumes "publishedAt video \<noteq> None" and "scheduledStartTime video \<noteq> Some None"
  shows "\<exists>db' row. upsertVideo video cid db = Inr (db', row, upsert_event (getVideo (videoId video) db) video)"
  using assms
  by (auto simp: upsertVideo_def toISOString_def Let_def split: option.splits)

lemma upsertVideo_InrD:
  assumes "upsertVideo video cid db = Inr (db', row, event)"
  obtains published scheduled where
    "publishedAt video = Some published"
    "event = upsert_event (getVideo (videoId video) db) video"
    "row = (case getVideo (videoId video) db of
              None \<Rightarrow> inserted_row (videos_id_seq db) video cid published scheduled
            | Some e \<Rightarrow> updated_row e video scheduled)"
    "videos_table db' =
       (case getVideo (videoId video) db of
          None \<Rightarrow> videos_table db @ [inserted_row (videos_id_seq db) video cid published scheduled]
        | Some e \<Rightarrow> map (\<lambda>r. if video_id r = videoId video then updated_row r video scheduled else r)
                      (videos_table db))"
    "events_table db' = events_table db @
       (case event of None \<Rightarrow> []
        | Some ev \<Rightarrow> [\<lparr>event_type = ev, ev_video_id = videoId video, ev_channel_id = cid,
                       data = Some (event_data (getVideo (videoId video) db) video)\<rparr>])"
    "channels_table db' = channels_table db"
  using assms
  by (auto simp: upsertVideo_def toISOString_def Let_def addEvent_def split: option.splits sum.splits)

lemma transition_table_first_match:
  "first_match (transition_table previous video) = Some (upsert_event previous video)"
  by (cases previous) (auto simp: transition_table_def upsert_event_def)

lemma transition_table_one_row:
  "length (filter fst (transition_table previous video)) = 1"
  by (cases previous) (auto simp: transition_table_def)

text \<open>
  C2. Every upsert that returns emits the event of the transition table: exactly one
  row of the table applies to the pair of the previously stored row and the observed
  signals, the event returned is the event of that row, and the upsert appends that one
  event to the events table, or nothing when the row is the no-event row.
\<close>

theorem upsertVideo_transition_table:
  assumes "upsertVideo video cid db = Inr (db', row, event)"
  shows "first_match (transition_table (getVideo (videoId video) db) video) = Some event \<and>
         length (filter fst (transition_table (getVideo (videoId video) db) video)) = 1 \<and>
         events_table db' = events_table db @
           (case event of None \<Rightarrow> []
            | Some ev \<Rightarrow> [\<lparr>event_type = ev, ev_video_id = videoId video, ev_channel_id = cid,
                           data = Some (event_data (getVideo (videoId video) db) video)\<rparr>])"
  using assms
  by (elim upsertVideo_InrD) (simp add: transition_table_first_match transition_table_one_row)

theorem upsertVideo_transition_table_witness:
  "(\<exists>db' row. upsertVideo upload ''UC1'' empty_store = Inr (db', row, Some new_video)) \<and>
   first_match (transition_table (getVideo (videoId upload) empty_store) upload) =
     Some (Some new_video)"
proof -
  have event: "upsert_event (getVideo (videoId upload) empty_store) upload = Some new_video"
    by (simp add: upsert_event_def getVideo_def empty_store_def upload_def)
  obtain db' row where
    run: "upsertVideo upload ''UC1'' empty_store = Inr (db', row, Some new_video)"
    using upsertVideo_returns [of upload "''UC1''" empty_store] event
    by (auto simp: upload_def)
  from upsertVideo_transition_table [OF run] run show ?thesis by blast
qed


text \<open>
  C9. An upsert over an existing row leaves the bookmark flag as it was: the returned
  row carries the flag of the stored row, and the flags of all rows of the table,
  identifier by identifier, are the same before and after, whatever the scraped fields
  are.
\<close>

theorem upsertVideo_keeps_bookmark:
  assumes "upsertVideo video cid db = Inr (db', row, event)"
    and "getVideo (videoId video) db = Some existing"
  shows "bookmarked row = bookmarked existing \<and>
         map (\<lambda>r. (video_id r, bookmarked r)) (videos_table db') =
         map (\<lambda>r. (video_id r, bookmarked r)) (videos_table db)"
  using assms
  by (elim upsertVideo_InrD) (simp add: updated_row_def)

theorem upsertVideo_keeps_bookmark_witness:
  "getVideo (videoId upload) bookmarked_store = Some bookmarked_row \<and> bookmarked bookmarked_row = 1 \<and>
   (\<exists>db' row event. upsertVideo upload ''UC1'' bookmarked_store = Inr (db', row, event) \<and>
      bookmarked row = 1 \<and>
      map (\<lambda>r. (video_id r, bookmarked r)) (videos_table db') = [(''aaaaaaaaaaa'', 1)])"
proof -
  have existing: "getVideo (videoId upload) bookmarked_store = Some bookmarked_row"
    by (simp add: getVideo_def bookmarked_store_def bookmarked_row_def upload_def)
  obtain db' row event where
    run: "upsertVideo upload ''UC1'' bookmarked_store = Inr (db', row, event)"
    using upsertVideo_returns [of upload "''UC1''" bookmarked_store]
    by (auto simp: upload_def)
  from upsertVideo_keeps_bookmark [OF run existing]
  have "bookmarked row = 1 \<and>
        map (\<lambda>r. (video_id r, bookmarked r)) (videos_table db') = [(''aaaaaaaaaaa'', 1)]"
    by (simp add: bookmarked_store_def bookmarked_row_def)
  with run existing show ?thesis
    by (auto simp: bookmarked_row_def)
qed



section \<open>Theorems: retention cleanup\<close>


lemma ranked_set: "set (ranked cid rows) = {r \<in> set rows. channel_id r = cid}"
  by (auto simp: ranked_def)

lemma ranked_filter_length:
  "length (filter P (ranked cid rows)) = length (filter P (filter (\<lambda>r. channel_id r = cid) rows))"
  by (simp add: ranked_def filter_sort)

lemma ranked_length: "length (ranked cid rows) = length (filter (\<lambda>r. channel_id r = cid) rows)"
  by (simp add: ranked_def)

lemma ranked_distinct: "distinct rows \<Longrightarrow> distinct (ranked cid rows)"
  by (simp add: ranked_def)

lemma ranked_sorted: "sorted (map (\<lambda>r. - published_at r) (ranked cid rows))"
  by (simp add: ranked_def)

lemma beyond_limit_set:
  "set (beyond_limit n rows) =
   {r. bookmarked r = 0 \<and> r \<in> set (drop n (ranked (channel_id r) rows))}"
proof -
  have in_ranked: "channel_id r = c \<and> c \<in> channel_id ` set rows"
    if "r \<in> set (drop n (ranked c rows))" for r c
    using in_set_dropD [OF that] by (auto simp: ranked_set)
  show ?thesis
  proof (intro set_eqI iffI)
    fix r assume "r \<in> set (beyond_limit n rows)"
    then obtain c where "bookmarked r = 0" and r: "r \<in> set (drop n (ranked c rows))"
      by (auto simp: beyond_limit_def)
    with in_ranked [OF r] show "r \<in> {r. bookmarked r = 0 \<and> r \<in> set (drop n (ranked (channel_id r) rows))}"
      by simp
  next
    fix r assume "r \<in> {r. bookmarked r = 0 \<and> r \<in> set (drop n (ranked (channel_id r) rows))}"
    then have b: "bookmarked r = 0" and r: "r \<in> set (drop n (ranked (channel_id r) rows))"
      by simp_all
    from in_ranked [OF r] obtain x where "x \<in> set rows" and "channel_id x = channel_id r"
      by auto
    then have "\<exists>x\<in>set rows. r \<in> set (drop n (ranked (channel_id x) rows))"
      using r by (intro bexI [of _ x]) simp_all
    with b show "r \<in> set (beyond_limit n rows)"
      by (simp add: beyond_limit_def)
  qed
qed

lemma beyond_limit_subset: "set (beyond_limit n rows) \<subseteq> set rows"
  by (auto simp: beyond_limit_set ranked_set dest: in_set_dropD)

lemma cleanupOldVideos_videos:
  assumes "distinct (map row_id (videos_table db))"
  shows "videos_table (fst (cleanupOldVideos n db)) =
         filter (\<lambda>r. r \<notin> set (beyond_limit n (videos_table db))) (videos_table db)"
proof -
  have inj: "inj_on row_id (set (videos_table db))"
    using assms by (simp add: distinct_map)
  have "row_id r \<in> row_id ` set (beyond_limit n (videos_table db)) \<longleftrightarrow>
        r \<in> set (beyond_limit n (videos_table db))"
    if "r \<in> set (videos_table db)" for r
    using that inj beyond_limit_subset [of n "videos_table db"]
    by (auto dest: inj_onD)
  then show ?thesis
    by (auto simp: cleanupOldVideos_def Let_def intro: filter_cong)
qed

lemma cleanupOldVideos_channel_rows:
  assumes "distinct (map row_id (videos_table db))"
  shows "channel_rows cid (fst (cleanupOldVideos n db)) =
         filter (\<lambda>r. r \<notin> set (filter (\<lambda>r. bookmarked r = 0) (drop n (ranked cid (videos_table db)))))
           (channel_rows cid db)"
  unfolding channel_rows_def cleanupOldVideos_videos [OF assms] filter_filter
  by (rule filter_cong) (auto simp: beyond_limit_set)

lemma length_filter_out:
  assumes "distinct xs" and "distinct ds" and "set ds \<subseteq> set xs"
  shows "length (filter (\<lambda>x. x \<notin> set ds) xs) = length xs - length ds"
proof -
  have "set (filter (\<lambda>x. x \<notin> set ds) xs) = set xs - set ds"
    by auto
  moreover have "distinct (filter (\<lambda>x. x \<notin> set ds) xs)"
    using assms(1) by simp
  ultimately have "length (filter (\<lambda>x. x \<notin> set ds) xs) = card (set xs - set ds)"
    using distinct_card by metis
  also have "\<dots> = card (set xs) - card (set ds)"
    using assms(3) by (simp add: card_Diff_subset)
  finally show ?thesis using assms by (simp add: distinct_card)
qed


lemma cleanupOldVideos_deleted_set:
  assumes pk: "distinct (map row_id (videos_table db))"
  shows "set (deleted_rows cid db (fst (cleanupOldVideos n db))) =
         {r \<in> set (drop n (ranked cid (videos_table db))). bookmarked r = 0}"
proof -
  have "set (drop n (ranked cid (videos_table db))) \<subseteq> set (channel_rows cid db)"
    using set_drop_subset [of n "ranked cid (videos_table db)"]
    by (auto simp: ranked_set channel_rows_def)
  then show ?thesis
    unfolding deleted_rows_def cleanupOldVideos_channel_rows [OF pk] by auto
qed

lemma cleanupOldVideos_deleted_length:
  assumes pk: "distinct (map row_id (videos_table db))"
  shows "length (deleted_rows cid db (fst (cleanupOldVideos n db))) =
         length (filter (\<lambda>r. bookmarked r = 0) (drop n (ranked cid (videos_table db))))"
proof -
  let ?R = "ranked cid (videos_table db)"
  let ?D = "filter (\<lambda>r. bookmarked r = 0) (drop n ?R)"
  have dist: "distinct (videos_table db)"
    using pk by (simp add: distinct_map)
  then have dP: "distinct (channel_rows cid db)" and dD: "distinct ?D"
    by (simp_all add: channel_rows_def ranked_distinct)
  then have "distinct (deleted_rows cid db (fst (cleanupOldVideos n db)))"
    by (simp add: deleted_rows_def)
  then have "length (deleted_rows cid db (fst (cleanupOldVideos n db))) =
             card (set (deleted_rows cid db (fst (cleanupOldVideos n db))))"
    by (simp add: distinct_card)
  also have "\<dots> = card (set ?D)"
    by (simp add: cleanupOldVideos_deleted_set [OF pk] conj_commute)
  also have "\<dots> = length ?D"
    using dD by (rule distinct_card)
  finally show ?thesis .
qed

text \<open>
  C8 (as the code has it). In a store whose rows have distinct ids and in which one
  channel has 15 unbookmarked and 2 bookmarked rows, \<open>cleanupOldVideos 10\<close> deletes from
  that channel exactly the unbookmarked rows that come after the first 10 in the ranking
  of all 17 rows by published time, newest first. The ranking counts the bookmarked
  rows too, so the number deleted is 5 plus the number of bookmarked rows among the 10
  newest: 5, 6 or 7. No bookmarked row is deleted, and every deleted row is at least as
  old as every unbookmarked row that stays.
\<close>

theorem cleanupOldVideos_scenario_D:
  assumes pk: "distinct (map row_id (videos_table db))"
    and unbookmarked: "length (unbookmarked_rows cid db) = 15"
    and bookmarked: "length (bookmarked_rows cid db) = 2"
  shows "set (deleted_rows cid db (fst (cleanupOldVideos 10 db))) =
           {r \<in> set (drop 10 (ranked cid (videos_table db))). bookmarked r = 0} \<and>
         length (deleted_rows cid db (fst (cleanupOldVideos 10 db))) =
           5 + length (filter (\<lambda>r. bookmarked r \<noteq> 0) (take 10 (ranked cid (videos_table db)))) \<and>
         bookmarked_rows cid (fst (cleanupOldVideos 10 db)) = bookmarked_rows cid db \<and>
         (\<forall>d\<in>set (deleted_rows cid db (fst (cleanupOldVideos 10 db))).
            \<forall>s\<in>set (unbookmarked_rows cid (fst (cleanupOldVideos 10 db))).
              published_at d \<le> published_at s)"
proof -
  let ?R = "ranked cid (videos_table db)"
  let ?after = "fst (cleanupOldVideos 10 db)"
  have total: "length ?R = 17"
    using unbookmarked bookmarked
      sum_length_filter_compl [of "\<lambda>r. bookmarked r = 0" "channel_rows cid db"]
    by (simp add: ranked_length unbookmarked_rows_def bookmarked_rows_def channel_rows_def)
  have bm_R: "length (filter (\<lambda>r. bookmarked r \<noteq> 0) ?R) = 2"
    using bookmarked by (simp add: ranked_filter_length bookmarked_rows_def channel_rows_def)
  have "filter (\<lambda>r. bookmarked r \<noteq> 0) ?R =
        filter (\<lambda>r. bookmarked r \<noteq> 0) (take 10 ?R) @ filter (\<lambda>r. bookmarked r \<noteq> 0) (drop 10 ?R)"
    by (metis append_take_drop_id filter_append)
  with bm_R have split: "length (filter (\<lambda>r. bookmarked r \<noteq> 0) (take 10 ?R)) +
                         length (filter (\<lambda>r. bookmarked r \<noteq> 0) (drop 10 ?R)) = 2"
    by simp
  have "length (filter (\<lambda>r. bookmarked r = 0) (drop 10 ?R)) +
        length (filter (\<lambda>r. bookmarked r \<noteq> 0) (drop 10 ?R)) = 7"
    using sum_length_filter_compl [of "\<lambda>r. bookmarked r = 0" "drop 10 ?R"] total by simp
  with split have count: "length (filter (\<lambda>r. bookmarked r = 0) (drop 10 ?R)) =
                          5 + length (filter (\<lambda>r. bookmarked r \<noteq> 0) (take 10 ?R))"
    by linarith
  have kept: "bookmarked_rows cid ?after = bookmarked_rows cid db"
    unfolding bookmarked_rows_def cleanupOldVideos_channel_rows [OF pk] filter_filter
    by (rule filter_cong) auto
  have oldest: "published_at d \<le> published_at s"
    if d: "d \<in> set (deleted_rows cid db ?after)" and s: "s \<in> set (unbookmarked_rows cid ?after)"
    for d s
  proof -
    from d have d_drop: "d \<in> set (drop 10 ?R)"
      by (simp add: cleanupOldVideos_deleted_set [OF pk])
    from s have "s \<in> set (channel_rows cid ?after)" and s0: "bookmarked s = 0"
      by (simp_all add: unbookmarked_rows_def)
    then have "s \<in> set (channel_rows cid db)" and "s \<notin> set (drop 10 ?R)"
      unfolding cleanupOldVideos_channel_rows [OF pk] by simp_all
    then have "s \<in> set ?R" and "s \<notin> set (drop 10 ?R)"
      by (simp_all add: ranked_set channel_rows_def)
    then have s_take: "s \<in> set (take 10 ?R)"
      by (metis Un_iff append_take_drop_id set_append)
    have "sorted (map (\<lambda>r. - published_at r) (take 10 ?R @ drop 10 ?R))"
      using ranked_sorted [of cid "videos_table db"] by simp
    then have "- published_at s \<le> - published_at d"
      using s_take d_drop unfolding map_append sorted_append by auto
    then show ?thesis by simp
  qed
  show ?thesis
    using cleanupOldVideos_deleted_set [OF pk, of cid 10]
      cleanupOldVideos_deleted_length [OF pk, of cid 10] count kept oldest
    by simp
qed

theorem cleanupOldVideos_scenario_D_witness:
  "distinct (map row_id (videos_table oldest_bookmarked_store)) \<and>
   length (unbookmarked_rows ''UC1'' oldest_bookmarked_store) = 15 \<and>
   length (bookmarked_rows ''UC1'' oldest_bookmarked_store) = 2 \<and>
   length (deleted_rows ''UC1'' oldest_bookmarked_store
             (fst (cleanupOldVideos 10 oldest_bookmarked_store))) = 5 \<and>
   bookmarked_rows ''UC1'' (fst (cleanupOldVideos 10 oldest_bookmarked_store)) =
     bookmarked_rows ''UC1'' oldest_bookmarked_store"
proof -
  have pk: "distinct (map row_id (videos_table oldest_bookmarked_store))"
    by code_simp
  have u: "length (unbookmarked_rows ''UC1'' oldest_bookmarked_store) = 15"
    by code_simp
  have b: "length (bookmarked_rows ''UC1'' oldest_bookmarked_store) = 2"
    by code_simp
  have top: "length (filter (\<lambda>r. bookmarked r \<noteq> 0)
               (take 10 (ranked ''UC1'' (videos_table oldest_bookmarked_store)))) = 0"
    by code_simp
  from cleanupOldVideos_scenario_D [OF pk u b] top pk u b show ?thesis
    by simp
qed

text \<open>
  With the two bookmarked rows being the two newest of the channel, the 15 unbookmarked
  rows rank 3 to 17 and the seven of rank 11 to 17 are deleted, not five.
\<close>

theorem cleanupOldVideos_newest_bookmarked:
  "length (unbookmarked_rows ''UC1'' newest_bookmarked_store) = 15 \<and>
   length (bookmarked_rows ''UC1'' newest_bookmarked_store) = 2 \<and>
   snd (cleanupOldVideos 10 newest_bookmarked_store) = 7 \<and>
   length (deleted_rows ''UC1'' newest_bookmarked_store
             (fst (cleanupOldVideos 10 newest_bookmarked_store))) = 7"
  by code_simp



section \<open>Theorems: monitor\<close>


lemma reaches_upsert_video:
  "reaches_upsert shortVideoIds video \<Longrightarrow>
   type video = Video \<and> \<not> isLive video \<and> \<not> isLiveContent video"
  by (simp add: reaches_upsert_def split: if_splits)

text \<open>The filters of the loop do not look at the is-upcoming signal.\<close>

lemma reaches_upsert_ignores_upcoming:
  "reaches_upsert shortVideoIds (video\<lparr>isUpcoming := b\<rparr>) = reaches_upsert shortVideoIds video"
  by (simp add: reaches_upsert_def)

lemma processVideos_only_video:
  "processVideos cid channelInfo shortVideoIds videos db out =
   processVideos cid channelInfo shortVideoIds (filter (\<lambda>v. type v = Video) videos) db out"
proof (induction videos arbitrary: db out)
  case Nil
  then show ?case by simp
next
  case (Cons video videos)
  show ?case
  proof (cases "type video = Video")
    case True
    then show ?thesis using Cons.IH by (simp split: sum.splits prod.splits)
  next
    case False
    then have "\<not> reaches_upsert shortVideoIds video"
      using reaches_upsert_video by blast
    then show ?thesis using False Cons.IH by simp
  qed
qed

lemma upsert_event_scheduled_live:
  "upsert_event existing video = Some scheduled_live \<Longrightarrow> isUpcoming video"
  by (auto simp: upsert_event_def split: option.splits if_splits)

lemma processVideos_emissions:
  assumes "processVideos cid channelInfo shortVideoIds videos db out = (db', out', err)"
    and "\<forall>v\<in>set videos. \<not> isUpcoming v"
  shows "(\<exists>new. out' = out @ new \<and>
            (\<forall>e\<in>set new. \<exists>ev v info. e = VideoEvent ev v info \<and>
                 type v = Video \<and> ev \<noteq> scheduled_live)) \<and>
         (\<exists>rows. events_table db' = events_table db @ rows \<and>
            (\<forall>e\<in>set rows. event_type e \<noteq> scheduled_live))"
  using assms
proof (induction videos arbitrary: db out)
  case Nil
  then show ?case by simp
next
  case (Cons video videos)
  have rest: "\<forall>v\<in>set videos. \<not> isUpcoming v"
    using Cons.prems(2) by simp
  show ?case
  proof (cases "reaches_upsert shortVideoIds video")
    case False
    then have "processVideos cid channelInfo shortVideoIds videos db out = (db', out', err)"
      using Cons.prems(1) by simp
    then show ?thesis using rest by (rule Cons.IH)
  next
    case True
    note vid = reaches_upsert_video [OF True]
    show ?thesis
    proof (cases "upsertVideo video cid db")
      case (Inl e)
      then show ?thesis using True Cons.prems(1) by simp
    next
      case (Inr res)
      obtain db1 row event where res: "res = (db1, row, event)" by (cases res)
      note up = Inr [unfolded res]
      define out1 where "out1 = (case (event, channelInfo) of
                  (Some ev, Some info) \<Rightarrow> out @ [VideoEvent ev video info]
                | _ \<Rightarrow> out)"
      have rec: "processVideos cid channelInfo shortVideoIds videos db1 out1 = (db', out', err)"
        using True Cons.prems(1) up by (simp add: out1_def)
      have ev: "event \<noteq> Some scheduled_live"
        using up Cons.prems(2) upsert_event_scheduled_live
        by (elim upsertVideo_InrD) auto
      have events1: "\<exists>rows. events_table db1 = events_table db @ rows \<and>
                       (\<forall>e\<in>set rows. event_type e \<noteq> scheduled_live)"
        using up ev by (elim upsertVideo_InrD) (auto split: option.splits)
      have out1: "\<exists>new. out1 = out @ new \<and>
            (\<forall>e\<in>set new. \<exists>ev v info. e = VideoEvent ev v info \<and>
                 type v = Video \<and> ev \<noteq> scheduled_live)"
        using ev vid by (auto simp: out1_def split: option.splits)
      from Cons.IH [OF rec rest]
      obtain new rows where
        new: "out' = out1 @ new"
          "\<forall>e\<in>set new. \<exists>ev v info. e = VideoEvent ev v info \<and>
                 type v = Video \<and> ev \<noteq> scheduled_live"
        and rows: "events_table db' = events_table db1 @ rows"
          "\<forall>e\<in>set rows. event_type e \<noteq> scheduled_live"
        by auto
      from out1 obtain new1 where new1: "out1 = out @ new1"
          "\<forall>e\<in>set new1. \<exists>ev v info. e = VideoEvent ev v info \<and>
                 type v = Video \<and> ev \<noteq> scheduled_live"
        by auto
      from events1 obtain rows1 where rows1: "events_table db1 = events_table db @ rows1"
          "\<forall>e\<in>set rows1. event_type e \<noteq> scheduled_live"
        by auto
      have "out' = out @ (new1 @ new)" using new(1) new1(1) by simp
      moreover have "\<forall>e\<in>set (new1 @ new). \<exists>ev v info. e = VideoEvent ev v info \<and>
          type v = Video \<and> ev \<noteq> scheduled_live"
        using new(2) new1(2) by auto
      moreover have "events_table db' = events_table db @ (rows1 @ rows)"
        using rows(1) rows1(1) by simp
      moreover have "\<forall>e\<in>set (rows1 @ rows). event_type e \<noteq> scheduled_live"
        using rows(2) rows1(2) by auto
      ultimately show ?thesis by blast
    qed
  qed
qed

lemma map_set_values: "snd ` set (map_set m k v) \<subseteq> insert v (snd ` set m)"
  by (induction m) (force split: if_splits)+

lemma dedup_loop_values:
  "snd ` set (dedup_loop seen videos) \<subseteq> snd ` set seen \<union> set videos"
proof (induction videos arbitrary: seen)
  case Nil
  then show ?case by simp
next
  case (Cons video videos)
  have "snd ` set (dedup_loop (map_set seen (videoId video) video) videos)
        \<subseteq> insert video (snd ` set seen) \<union> set videos"
    using Cons.IH [of "map_set seen (videoId video) video"]
      map_set_values [of seen "videoId video" video] by blast
  then show ?case
    using Cons.IH [of seen] by (auto split: option.splits)
qed

lemma deduplicateVideos_subset: "set (deduplicateVideos videos) \<subseteq> set videos"
  using dedup_loop_values [of "[]" videos] by (simp add: deduplicateVideos_def)

lemma getChannelVideos_signals:
  assumes "v \<in> set (getChannelVideos maxVideosPerFeed feedResults)"
  shows "\<not> isUpcoming v \<and> \<not> isLive v \<and> type v \<noteq> Scheduled \<and> type v \<noteq> Live"
proof -
  from assms deduplicateVideos_subset
  obtain feedType item where "v = feed_video feedType item"
    unfolding getChannelVideos_def by fastforce
  then show ?thesis
    by (cases feedType) (simp_all add: feed_video_def getTypeFromFeed_def)
qed

text \<open>
  C10. In the loop of \<open>checkChannel\<close> over the feed-scanned items, only items of type
  \<open>video\<close> can reach the upsert: the loop does the same on the list from which every
  item of another type has been removed, so such an item causes no upsert, no stored
  event and no emission. On the list the feed scan delivers, whose items never carry
  is-upcoming and are never typed scheduled, every emission of the loop is an event
  about an item of type \<open>video\<close>, and neither an emission nor a new row of the events
  table is a \<open>scheduled_live\<close> event.
\<close>

theorem processVideos_feed_scan:
  "processVideos cid channelInfo shortVideoIds videos db out =
     processVideos cid channelInfo shortVideoIds (filter (\<lambda>v. type v = Video) videos) db out \<and>
   (\<forall>db' out' err.
      processVideos cid channelInfo shortVideoIds
        (getChannelVideos maxVideosPerFeed feedResults) db out = (db', out', err) \<longrightarrow>
      (\<exists>new. out' = out @ new \<and>
         (\<forall>e\<in>set new. \<exists>ev v info. e = VideoEvent ev v info \<and> type v = Video \<and>
            ev \<noteq> scheduled_live)) \<and>
      (\<exists>rows. events_table db' = events_table db @ rows \<and>
         (\<forall>e\<in>set rows. event_type e \<noteq> scheduled_live)))"
proof (intro conjI allI impI)
  show "processVideos cid channelInfo shortVideoIds videos db out =
     processVideos cid channelInfo shortVideoIds (filter (\<lambda>v. type v = Video) videos) db out"
    by (rule processVideos_only_video)
next
  fix db' out' err
  assume run: "processVideos cid channelInfo shortVideoIds
        (getChannelVideos maxVideosPerFeed feedResults) db out = (db', out', err)"
  have "\<forall>v\<in>set (getChannelVideos maxVideosPerFeed feedResults). \<not> isUpcoming v"
    using getChannelVideos_signals by blast
  note facts = processVideos_emissions [OF run this]
  from facts show "\<exists>new. out' = out @ new \<and>
         (\<forall>e\<in>set new. \<exists>ev v info. e = VideoEvent ev v info \<and> type v = Video \<and>
            ev \<noteq> scheduled_live)"
    by blast
  from facts show "\<exists>rows. events_table db' = events_table db @ rows \<and>
         (\<forall>e\<in>set rows. event_type e \<noteq> scheduled_live)"
    by blast
qed

theorem processVideos_feed_scan_witness:
  "fst (snd (processVideos ''UC1'' (Some (channel_info_of channel_row)) []
               (getChannelVideos 15 cycle_feeds) empty_store [])) \<noteq> [] \<and>
   list_all (\<lambda>e. \<exists>ev v info. e = VideoEvent ev v info \<and> type v = Video \<and> ev \<noteq> scheduled_live)
     (fst (snd (processVideos ''UC1'' (Some (channel_info_of channel_row)) []
                  (getChannelVideos 15 cycle_feeds) empty_store [])))"
proof -
  let ?run = "processVideos ''UC1'' (Some (channel_info_of channel_row)) []
               (getChannelVideos 15 cycle_feeds) empty_store []"
  have "?run = (fst ?run, fst (snd ?run), snd (snd ?run))"
    by simp
  with processVideos_feed_scan [of "''UC1''" "Some (channel_info_of channel_row)" "[]" "[]"
      empty_store "[]" 15 cycle_feeds]
  have "\<exists>new. fst (snd ?run) = [] @ new \<and>
         (\<forall>e\<in>set new. \<exists>ev v info. e = VideoEvent ev v info \<and> type v = Video \<and>
            ev \<noteq> scheduled_live)"
    by blast
  moreover have "fst (snd ?run) \<noteq> []"
    by code_simp
  ultimately show ?thesis by (simp add: list_all_iff)
qed




lemma updated_rows_video_ids:
  "map video_id (map (\<lambda>r. if video_id r = k then updated_row r video s else r) rows) =
   map video_id rows"
  by (induction rows) (simp_all add: updated_row_def)

lemma upsertVideo_video_ids:
  assumes "upsertVideo video cid db = Inr (db', row, event)"
    and "distinct (map video_id (videos_table db))"
  shows "distinct (map video_id (videos_table db'))"
proof (cases "getVideo (videoId video) db")
  case None
  then have "videoId video \<notin> video_id ` set (videos_table db)"
    by (auto simp: getVideo_def find_None_iff)
  moreover obtain r where "videos_table db' = videos_table db @ [r]" and "video_id r = videoId video"
    using assms(1) None by (elim upsertVideo_InrD) (auto simp: inserted_row_def)
  ultimately show ?thesis using assms(2) by simp
next
  case (Some e)
  obtain s where "videos_table db' =
      map (\<lambda>r. if video_id r = videoId video then updated_row r video s else r) (videos_table db)"
    using assms(1) Some by (elim upsertVideo_InrD) auto
  then show ?thesis
    using assms(2) by (simp only: updated_rows_video_ids)
qed

lemma processVideos_video_ids:
  assumes "processVideos cid channelInfo shortVideoIds videos db out = (db', out', err)"
    and "distinct (map video_id (videos_table db))"
  shows "distinct (map video_id (videos_table db'))"
  using assms
proof (induction videos arbitrary: db out)
  case Nil
  then show ?case by simp
next
  case (Cons video videos)
  show ?case
  proof (cases "reaches_upsert shortVideoIds video")
    case False
    then show ?thesis using Cons by simp
  next
    case True
    show ?thesis
    proof (cases "upsertVideo video cid db")
      case (Inl e)
      then show ?thesis using True Cons.prems by simp
    next
      case (Inr res)
      obtain db1 row event where res: "res = (db1, row, event)" by (cases res)
      note up = Inr [unfolded res]
      have "distinct (map video_id (videos_table db1))"
        using up Cons.prems(2) by (rule upsertVideo_video_ids)
      moreover have "processVideos cid channelInfo shortVideoIds videos db1
               (case (event, channelInfo) of
                  (Some ev, Some info) \<Rightarrow> out @ [VideoEvent ev video info]
                | _ \<Rightarrow> out) = (db', out', err)"
        using True Cons.prems(1) up by simp
      ultimately show ?thesis using Cons.IH by blast
    qed
  qed
qed

text \<open>The probe's identifier does not match: the condition under which a saved live row is deleted.\<close>

lemma cleanup_fold_videos:
  "videos_table
     (fold (\<lambda>savedLive d. if stale savedLive then fst (deleteVideo (video_id savedLive) d) else d)
        saved db) =
   filter (\<lambda>r. \<forall>s\<in>set saved. stale s \<longrightarrow> video_id r \<noteq> video_id s) (videos_table db)"
proof (induction saved arbitrary: db)
  case Nil
  then show ?case by simp
next
  case (Cons s saved)
  show ?case
    by (auto simp: Cons.IH deleteVideo_def intro: filter_cong)
qed

lemma cleanupEndedLives_videos:
  "videos_table (cleanupEndedLives cid currentLive db) =
   filter (\<lambda>r. \<forall>s\<in>set (getLiveVideos (Some cid) db).
                 (case currentLive of None \<Rightarrow> True | Some cur \<Rightarrow> video_id s \<noteq> videoId cur)
                 \<longrightarrow> video_id r \<noteq> video_id s)
     (videos_table db)"
  unfolding cleanupEndedLives_def by (rule cleanup_fold_videos)

lemma cleanupEndedLives_live:
  assumes "r \<in> set (getLiveVideos (Some cid) (cleanupEndedLives cid currentLive db))"
  shows "\<exists>cur. currentLive = Some cur \<and> video_id r = videoId cur"
proof -
  from assms have r: "r \<in> set (videos_table (cleanupEndedLives cid currentLive db))"
    and live: "is_live r = 1" "channel_id r = cid"
    by (simp_all add: getLiveVideos_def)
  from r have in_db: "r \<in> set (videos_table db)"
    and keep: "\<forall>s\<in>set (getLiveVideos (Some cid) db).
                 (case currentLive of None \<Rightarrow> True | Some cur \<Rightarrow> video_id s \<noteq> videoId cur)
                 \<longrightarrow> video_id r \<noteq> video_id s"
    unfolding cleanupEndedLives_videos by simp_all
  from in_db live have "r \<in> set (getLiveVideos (Some cid) db)"
    by (simp add: getLiveVideos_def)
  with keep have "\<not> (case currentLive of None \<Rightarrow> True | Some cur \<Rightarrow> video_id r \<noteq> videoId cur)"
    by blast
  then show ?thesis by (cases currentLive) simp_all
qed

lemma cleanupEndedLives_video_ids:
  "distinct (map video_id (videos_table db)) \<Longrightarrow>
   distinct (map video_id (videos_table (cleanupEndedLives cid currentLive db)))"
  unfolding cleanupEndedLives_videos by (rule distinct_map_filter)

lemma at_most_one_with_key:
  assumes "distinct (map f xs)" and "\<forall>x\<in>set (filter P xs). f x = k"
  shows "length (filter P xs) \<le> 1"
proof -
  have "distinct (map f (filter P xs))"
    using assms(1) by (rule distinct_map_filter)
  moreover have "set (map f (filter P xs)) \<subseteq> {k}"
    using assms(2) by auto
  ultimately have "length (map f (filter P xs)) \<le> card {k}"
    by (metis card_mono distinct_card finite.emptyI finite.insertI)
  then show ?thesis by simp
qed

lemma cleanupEndedLives_at_most_one:
  assumes "distinct (map video_id (videos_table db))"
  shows "length (getLiveVideos (Some cid) (cleanupEndedLives cid currentLive db)) \<le> 1"
proof (cases currentLive)
  case None
  have "getLiveVideos (Some cid) (cleanupEndedLives cid currentLive db) = []"
  proof (rule ccontr)
    assume "getLiveVideos (Some cid) (cleanupEndedLives cid currentLive db) \<noteq> []"
    then obtain r where "r \<in> set (getLiveVideos (Some cid) (cleanupEndedLives cid currentLive db))"
      using hd_in_set by blast
    from cleanupEndedLives_live [OF this] None show False by simp
  qed
  then show ?thesis by simp
next
  case (Some cur)
  have "\<forall>r\<in>set (getLiveVideos (Some cid) (cleanupEndedLives cid currentLive db)).
          video_id r = videoId cur"
    using cleanupEndedLives_live [of _ cid currentLive db] Some by auto
  then show ?thesis
    unfolding getLiveVideos_def option.case
    by (intro at_most_one_with_key [OF cleanupEndedLives_video_ids [OF assms]]) 
qed




lemma getLiveVideos_updateChannelLastChecked:
  "getLiveVideos c (updateChannelLastChecked cid now db) = getLiveVideos c db"
  by (simp add: getLiveVideos_def updateChannelLastChecked_def split: option.splits)

lemma checkChannel_try_completed:
  assumes exists: "getChannel cid (store m) = Some channel"
    and completed: "snd (checkChannel_try cid n feeds liveNow now m) = Inr result"
    and unique: "distinct (map video_id (videos_table (store m)))"
  shows "\<exists>db3. store (fst (checkChannel_try cid n feeds liveNow now m)) =
                 updateChannelLastChecked cid now (cleanupEndedLives cid liveNow db3) \<and>
               distinct (map video_id (videos_table db3))"
proof -
  let ?videos = "getChannelVideos n feeds"
  let ?channelInfo =
    "(case channelCache m cid of
        Some info \<Rightarrow> Some info
      | None \<Rightarrow> map_option channel_info_of (getChannel cid (store m)))"
  let ?m1 =
    "(case (channelCache m cid, ?channelInfo) of
        (None, Some info) \<Rightarrow> m\<lparr>channelCache := (channelCache m)(cid \<mapsto> info)\<rparr>
      | _ \<Rightarrow> m)"
  let ?probe =
    "(case (liveNow, ?channelInfo) of
        (Some live, Some info) \<Rightarrow>
          (case upsertVideo live cid (store ?m1) of
             Inl err \<Rightarrow> Inl err
           | Inr (db', row, event) \<Rightarrow>
               Inr (db', (case event of
                            None \<Rightarrow> emitted ?m1
                          | Some ev \<Rightarrow> emitted ?m1 @ [VideoEvent ev live info])))
      | _ \<Rightarrow> Inr (store ?m1, emitted ?m1))"
  let ?loop = "\<lambda>db2 out2.
     processVideos cid ?channelInfo (map videoId (filter (\<lambda>v. type v = Short) ?videos))
       ?videos db2 out2"
  have store1: "store ?m1 = store m"
    by (simp split: option.splits)
  have unfolded: "checkChannel_try cid n feeds liveNow now m =
     (case ?probe of
        Inl err \<Rightarrow> (?m1, Inl err)
      | Inr (db2, out2) \<Rightarrow>
         (case ?loop db2 out2 of
            (db3, out3, Some err) \<Rightarrow> (?m1\<lparr>store := db3, emitted := out3\<rparr>, Inl err)
          | (db3, out3, None) \<Rightarrow>
              (?m1\<lparr>store := updateChannelLastChecked cid now (cleanupEndedLives cid liveNow db3),
                   emitted := out3 @ [ChannelChecked cid (length ?videos)]\<rparr>,
               Inr ?videos)))"
    unfolding checkChannel_try_def Let_def using exists by simp
  from completed obtain db2 out2 where probe: "?probe = Inr (db2, out2)"
    unfolding unfolded by (cases ?probe) auto
  have unique2: "distinct (map video_id (videos_table db2))"
  proof (cases "\<exists>live info. liveNow = Some live \<and> ?channelInfo = Some info")
    case True
    then obtain live info where "liveNow = Some live" "?channelInfo = Some info" by blast
    with probe obtain row event where "upsertVideo live cid (store ?m1) = Inr (db2, row, event)"
      by (auto split: sum.splits)
    then have "upsertVideo live cid (store m) = Inr (db2, row, event)"
      by (simp only: store1)
    then show ?thesis using unique by (rule upsertVideo_video_ids)
  next
    case False
    then have "?probe = Inr (store ?m1, emitted ?m1)"
      by (auto split: option.splits)
    with probe have "db2 = store ?m1" by simp
    then show ?thesis using unique by (simp only: store1)
  qed
  obtain db3 out3 err where loop: "?loop db2 out2 = (db3, out3, err)"
    by (metis prod_cases3)
  have "err = None"
    using completed unfolding unfolded probe by (cases err) (simp_all add: loop)
  then have "store (fst (checkChannel_try cid n feeds liveNow now m)) =
             updateChannelLastChecked cid now (cleanupEndedLives cid liveNow db3)"
    unfolding unfolded probe by (simp add: loop)
  moreover have "distinct (map video_id (videos_table db3))"
    using loop unique2 by (rule processVideos_video_ids)
  ultimately show ?thesis by blast
qed

lemma checkChannel_completed:
  "snd (checkChannel_try cid n feeds liveNow now m) = Inr result \<Longrightarrow>
   checkChannel cid n feeds liveNow now m = (fst (checkChannel_try cid n feeds liveNow now m), result)"
  by (cases "checkChannel_try cid n feeds liveNow now m") (simp add: checkChannel_def)

lemma processVideos_completes:
  assumes "\<forall>v\<in>set videos. publishedAt v \<noteq> None \<and> scheduledStartTime v \<noteq> Some None"
  shows "snd (snd (processVideos cid channelInfo shortVideoIds videos db out)) = None"
  using assms
proof (induction videos arbitrary: db out)
  case Nil
  then show ?case by simp
next
  case (Cons video videos)
  then have valid: "publishedAt video \<noteq> None" "scheduledStartTime video \<noteq> Some None"
    and rest: "\<forall>v\<in>set videos. publishedAt v \<noteq> None \<and> scheduledStartTime v \<noteq> Some None"
    by simp_all
  from upsertVideo_returns [OF valid, of cid db]
  obtain db1 row where "upsertVideo video cid db =
      Inr (db1, row, upsert_event (getVideo (videoId video) db) video)"
    by blast
  then show ?case
    using Cons.IH [OF rest] by simp
qed

lemma getChannelVideos_dates:
  assumes "\<forall>p\<in>set feedResults. \<forall>item\<in>set (snd p). rss_publishedAt item \<noteq> None"
    and "v \<in> set (getChannelVideos maxVideosPerFeed feedResults)"
  shows "publishedAt v \<noteq> None \<and> scheduledStartTime v \<noteq> Some None"
proof -
  from assms(2) deduplicateVideos_subset
  obtain feedType items item where "(feedType, items) \<in> set feedResults"
    and "item \<in> set (take maxVideosPerFeed items)" and v: "v = feed_video feedType item"
    unfolding getChannelVideos_def by fastforce
  then have "rss_publishedAt item \<noteq> None"
    using assms(1) by (auto dest: in_set_takeD)
  then show ?thesis by (simp add: v feed_video_def)
qed

text \<open>A cycle completes whenever the channel exists and every date it has to store is valid.\<close>

lemma checkChannel_try_completes:
  assumes exists: "getChannel cid (store m) = Some channel"
    and feeds: "\<forall>p\<in>set feedResults. \<forall>item\<in>set (snd p). rss_publishedAt item \<noteq> None"
    and probe: "\<forall>live. liveNow = Some live \<longrightarrow>
                  publishedAt live \<noteq> None \<and> scheduledStartTime live \<noteq> Some None"
  shows "snd (checkChannel_try cid n feedResults liveNow now m) = Inr (getChannelVideos n feedResults)"
proof -
  let ?videos = "getChannelVideos n feedResults"
  let ?channelInfo =
    "(case channelCache m cid of
        Some info \<Rightarrow> Some info
      | None \<Rightarrow> map_option channel_info_of (getChannel cid (store m)))"
  let ?m1 =
    "(case (channelCache m cid, ?channelInfo) of
        (None, Some info) \<Rightarrow> m\<lparr>channelCache := (channelCache m)(cid \<mapsto> info)\<rparr>
      | _ \<Rightarrow> m)"
  let ?probe =
    "(case (liveNow, ?channelInfo) of
        (Some live, Some info) \<Rightarrow>
          (case upsertVideo live cid (store ?m1) of
             Inl err \<Rightarrow> Inl err
           | Inr (db', row, event) \<Rightarrow>
               Inr (db', (case event of
                            None \<Rightarrow> emitted ?m1
                          | Some ev \<Rightarrow> emitted ?m1 @ [VideoEvent ev live info])))
      | _ \<Rightarrow> Inr (store ?m1, emitted ?m1))"
  let ?loop = "\<lambda>db2 out2.
     processVideos cid ?channelInfo (map videoId (filter (\<lambda>v. type v = Short) ?videos))
       ?videos db2 out2"
  have unfolded: "checkChannel_try cid n feedResults liveNow now m =
     (case ?probe of
        Inl err \<Rightarrow> (?m1, Inl err)
      | Inr (db2, out2) \<Rightarrow>
         (case ?loop db2 out2 of
            (db3, out3, Some err) \<Rightarrow> (?m1\<lparr>store := db3, emitted := out3\<rparr>, Inl err)
          | (db3, out3, None) \<Rightarrow>
              (?m1\<lparr>store := updateChannelLastChecked cid now (cleanupEndedLives cid liveNow db3),
                   emitted := out3 @ [ChannelChecked cid (length ?videos)]\<rparr>,
               Inr ?videos)))"
    unfolding checkChannel_try_def Let_def using exists by simp
  have "\<exists>db2 out2. ?probe = Inr (db2, out2)"
  proof (cases "\<exists>live info. liveNow = Some live \<and> ?channelInfo = Some info")
    case True
    then obtain live info where live: "liveNow = Some live" "?channelInfo = Some info" by blast
    from upsertVideo_returns [of live cid "store ?m1"] probe live(1)
    obtain db2 row event where "upsertVideo live cid (store ?m1) = Inr (db2, row, event)"
      by blast
    then show ?thesis using live by simp
  next
    case False
    then have "?probe = Inr (store ?m1, emitted ?m1)"
      by (auto split: option.splits)
    then show ?thesis by blast
  qed
  then obtain db2 out2 where step: "?probe = Inr (db2, out2)"
    by blast
  obtain db3 out3 err where loop: "?loop db2 out2 = (db3, out3, err)"
    by (metis prod_cases3)
  have "snd (snd (?loop db2 out2)) = None"
    using getChannelVideos_dates [OF feeds] by (intro processVideos_completes) blast
  then have "err = None"
    by (simp add: loop)
  then show ?thesis
    unfolding unfolded step by (simp add: loop)
qed

text \<open>
  C1. After a channel-check cycle that completes (the channel exists and no step
  throws), at most one stored row of the checked channel has \<open>is_live = 1\<close>, and such a
  row has the identifier of the current probe result: every stored live row of the
  channel with another identifier, or every stored live row of the channel when the
  probe returned none, has been deleted. Identifiers of stored rows are unique, as
  the table's \<open>UNIQUE\<close> constraint has it.
\<close>

theorem checkChannel_at_most_one_live:
  assumes unique: "distinct (map video_id (videos_table (store m)))"
    and exists: "getChannel cid (store m) = Some channel"
    and completed: "snd (checkChannel_try cid n feeds liveNow now m) = Inr result"
  shows "length (getLiveVideos (Some cid) (store (fst (checkChannel cid n feeds liveNow now m)))) \<le> 1 \<and>
         (\<forall>r\<in>set (getLiveVideos (Some cid) (store (fst (checkChannel cid n feeds liveNow now m)))).
            \<exists>live. liveNow = Some live \<and> video_id r = videoId live)"
proof -
  from checkChannel_try_completed [OF exists completed unique]
  obtain db3 where after: "store (fst (checkChannel_try cid n feeds liveNow now m)) =
                 updateChannelLastChecked cid now (cleanupEndedLives cid liveNow db3)"
    and unique3: "distinct (map video_id (videos_table db3))"
    by blast
  have same: "getLiveVideos (Some cid) (store (fst (checkChannel cid n feeds liveNow now m))) =
        getLiveVideos (Some cid) (cleanupEndedLives cid liveNow db3)"
    by (simp add: checkChannel_completed [OF completed] after getLiveVideos_updateChannelLastChecked)
  show ?thesis
    unfolding same
    using cleanupEndedLives_at_most_one [OF unique3] cleanupEndedLives_live by blast
qed

theorem checkChannel_at_most_one_live_witness:
  "length (getLiveVideos (Some ''UC1'') (store two_lives_monitor)) = 2 \<and>
   snd (checkChannel_try ''UC1'' 15 cycle_feeds (Some sighting_live) 5000 two_lives_monitor) =
     Inr (getChannelVideos 15 cycle_feeds) \<and>
   length (getLiveVideos (Some ''UC1'')
     (store (fst (checkChannel ''UC1'' 15 cycle_feeds (Some sighting_live) 5000 two_lives_monitor))))
   \<le> 1"
proof -
  have unique: "distinct (map video_id (videos_table (store two_lives_monitor)))"
    by code_simp
  have exists: "getChannel ''UC1'' (store two_lives_monitor) = Some channel_row"
    by code_simp
  have completed:
    "snd (checkChannel_try ''UC1'' 15 cycle_feeds (Some sighting_live) 5000 two_lives_monitor) =
     Inr (getChannelVideos 15 cycle_feeds)"
    by code_simp
  have before: "length (getLiveVideos (Some ''UC1'') (store two_lives_monitor)) = 2"
    by code_simp
  from checkChannel_at_most_one_live [OF unique exists completed] completed before
  show ?thesis by blast
qed


end
